theory Spec2Isabelle
  imports Complex_Main "HOL-Library.Char_ord" "HOL-Library.List_Lexorder"
begin

section \<open>Game Time Tracker: session aggregation and the timer\<close>

text \<open>
  The development embeds four pieces of the tracker: the client aggregator of
  \<^verbatim>\<open>js/sqlite-handler.js\<close> (\<^verbatim>\<open>generateSummaryStats\<close>, \<^verbatim>\<open>prepareDailyTrendData\<close>) and
  its \<^verbatim>\<open>loadFromDatabase\<close>, the \<^verbatim>\<open>/api/sessions/load\<close> and \<^verbatim>\<open>/api/sessions/stats\<close>
  handlers of \<^verbatim>\<open>server.js\<close>, and the timer methods of the \<^verbatim>\<open>GameTimeTracker\<close> class of the
  main application script (the version with the metadata form and the Kovaaks alarm).

  The aggregator is embedded twice. First over typed records, where a session is a value:
  the game is a string, a duration is a whole number of minutes or absent, the metadata is
  absent or an object with an optional \<^verbatim>\<open>matchTypes\<close> map of counts and an optional
  \<^verbatim>\<open>aimType\<close> label. Then over a store of objects, where a value is untyped, to say which
  objects a call writes and what a call does with metadata of any other shape. What the
  server parses from the metadata column is a JSON value of any kind; the typed record of
  such a value is what the summary code reads of it.

  Conventions. A JavaScript object is the list of its own properties in insertion order.
  Members inherited from \<^verbatim>\<open>Object.prototype\<close> and the engine's reordering of
  integer-like keys are not modelled; where a result depends on a label not being the name
  of an inherited member, that is a hypothesis. Minutes and milliseconds are integers and
  are added exactly, as the language adds whole numbers below \<open>2 ^ 53\<close>; a quotient that
  is kept as a fraction is a rational number. An exception is a value \<open>Inl e\<close>. What the
  code asks of its runtime (the clock, \<^verbatim>\<open>Date\<close>, \<^verbatim>\<open>JSON.parse\<close>) is a parameter of the
  function that asks.
\<close>

subsection \<open>Objects, numbers, errors\<close>

datatype error = TypeError | RangeError | SyntaxError | SqliteError | Error

type_synonym 'v object = "(string \<times> 'v) list"

text \<open>\<^verbatim>\<open>obj[key]\<close>: \<open>None\<close> is \<^verbatim>\<open>undefined\<close>.\<close>

fun obj_get :: "'v object \<Rightarrow> string \<Rightarrow> 'v option" where
  "obj_get [] k = None"
| "obj_get ((k', v) # ps) k = (if k' = k then Some v else obj_get ps k)"

text \<open>\<^verbatim>\<open>obj[key] = v\<close>: an existing property keeps its place, a new one goes last.\<close>

fun obj_set :: "'v object \<Rightarrow> string \<Rightarrow> 'v \<Rightarrow> 'v object" where
  "obj_set [] k v = [(k, v)]"
| "obj_set ((k', v') # ps) k v = (if k' = k then (k, v) # ps else (k', v') # obj_set ps k v)"

text \<open>\<^verbatim>\<open>Object.keys(obj)\<close>.\<close>

definition obj_keys :: "'v object \<Rightarrow> string list" where
  "obj_keys ob = map fst ob"

text \<open>
  A property that holds a running total of minutes. Adding to a property that does not
  exist yields \<^verbatim>\<open>undefined + n\<close>, which is \<^verbatim>\<open>NaN\<close>.
\<close>

datatype jsnum = Num int | NaN

fun plus_assign :: "jsnum option \<Rightarrow> int \<Rightarrow> jsnum" where
  "plus_assign None d = NaN"
| "plus_assign (Some (Num n)) d = Num (n + d)"
| "plus_assign (Some NaN) d = NaN"

text \<open>\<^verbatim>\<open>x || 0\<close> for a numeric property that may be \<^verbatim>\<open>undefined\<close> or \<^verbatim>\<open>null\<close>.\<close>

fun or_zero :: "int option \<Rightarrow> int" where
  "or_zero None = 0"
| "or_zero (Some n) = n"

subsection \<open>Session records\<close>

text \<open>
  The metadata bag: \<^verbatim>\<open>matchTypes\<close> maps a match-type label to a count (Valorant),
  \<^verbatim>\<open>aimType\<close> is one training label (Kovaaks). \<^verbatim>\<open>{}\<close> has neither.
\<close>

record metadata =
  matchTypes :: "int object option"
  aimType :: "string option"

definition empty_metadata :: metadata where
  "empty_metadata = \<lparr>matchTypes = None, aimType = None\<rparr>"

text \<open>
  A session record. The type \<open>'m\<close> of the metadata field is \<open>metadata option\<close> in memory
  (\<open>None\<close>: the property is \<^verbatim>\<open>undefined\<close> or \<^verbatim>\<open>null\<close>), \<open>string option\<close> in a
  database row (the \<^verbatim>\<open>TEXT\<close> column, \<open>None\<close> for \<^verbatim>\<open>NULL\<close>), and a JSON value in a
  record that the load endpoint sends.
\<close>

record 'm session_record =
  game :: string
  date :: string
  startTime :: string
  endTime :: "string option"
  durationMinutes :: "int option"
  metadata :: 'm

type_synonym session = "metadata option session_record"
type_synonym row = "string option session_record"

subsection \<open>The client aggregator: summary statistics\<close>

record stats =
  totalSessions :: nat
  totalTimeMinutes :: int
  avgSessionMinutes :: rat
  gameBreakdown :: "jsnum object"
  valorantMatchTypes :: "int object"
  kovaaksAimTypes :: "int object"

text \<open>
  \<^verbatim>\<open>session.metadata.matchTypes\<close> and \<^verbatim>\<open>session.metadata.aimType\<close>: reading a property
  of \<^verbatim>\<open>undefined\<close> or \<^verbatim>\<open>null\<close> throws a TypeError.
\<close>

fun read_matchTypes :: "metadata option \<Rightarrow> error + int object option" where
  "read_matchTypes None = Inl TypeError"
| "read_matchTypes (Some m) = Inr (matchTypes m)"

fun read_aimType :: "metadata option \<Rightarrow> error + string option" where
  "read_aimType None = Inl TypeError"
| "read_aimType (Some m) = Inr (aimType m)"

text \<open>Truthiness of the metadata property, and of a string (the empty string is falsy).\<close>

fun truthy_metadata :: "metadata option \<Rightarrow> bool" where
  "truthy_metadata None = False"
| "truthy_metadata (Some m) = True"

definition truthy_string :: "string \<Rightarrow> bool" where
  "truthy_string s = (s \<noteq> [])"

text \<open>\<^verbatim>\<open>tally[key] = (tally[key] || 0) + n\<close>.\<close>

definition add_count :: "int object \<Rightarrow> string \<Rightarrow> int \<Rightarrow> int object" where
  "add_count tally k n = obj_set tally k (or_zero (obj_get tally k) + n)"

text \<open>\<^verbatim>\<open>Object.entries(matchTypes).forEach(([type, count]) => ...)\<close>.\<close>

fun add_entries :: "int object \<Rightarrow> int object \<Rightarrow> int object" where
  "add_entries tally [] = tally"
| "add_entries tally ((type, count) # es) = add_entries (add_count tally type count) es"

text \<open>\<^verbatim>\<open>gameBreakdown[session.game] += durationMinutes\<close>.\<close>

definition add_game :: "jsnum object \<Rightarrow> string \<Rightarrow> int \<Rightarrow> jsnum object" where
  "add_game gb g d = obj_set gb g (plus_assign (obj_get gb g) d)"

text \<open>
  One pass of the \<^verbatim>\<open>forEach\<close> callback of \<^verbatim>\<open>generateSummaryStats\<close>. The local variables
  \<^verbatim>\<open>totalTimeMinutes\<close>, \<^verbatim>\<open>gameBreakdown\<close>, \<^verbatim>\<open>valorantMatchTypes\<close>, \<^verbatim>\<open>kovaaksAimTypes\<close>
  are the fields of the same name of the accumulator; the other two fields are filled in
  after the loop.
\<close>

definition match_types_step :: "session \<Rightarrow> int object \<Rightarrow> error + int object" where
  "match_types_step s vmt =
     (if game s = ''valorant'' \<and> truthy_metadata (metadata s) then
        (case read_matchTypes (metadata s) of
           Inl e \<Rightarrow> Inl e
         | Inr None \<Rightarrow> Inr vmt
         | Inr (Some mt) \<Rightarrow> Inr (add_entries vmt mt))
      else Inr vmt)"

definition aim_types_step :: "session \<Rightarrow> int \<Rightarrow> int object \<Rightarrow> error + int object" where
  "aim_types_step s d kat =
     (if game s = ''kovaaks'' \<and> truthy_metadata (metadata s) then
        (case read_aimType (metadata s) of
           Inl e \<Rightarrow> Inl e
         | Inr None \<Rightarrow> Inr kat
         | Inr (Some a) \<Rightarrow> (if truthy_string a then Inr (add_count kat a d) else Inr kat))
      else Inr kat)"

definition summary_step :: "session \<Rightarrow> stats \<Rightarrow> error + stats" where
  "summary_step s acc =
     (let d = or_zero (durationMinutes s) in
      case match_types_step s (valorantMatchTypes acc) of
        Inl e \<Rightarrow> Inl e
      | Inr vmt \<Rightarrow>
          (case aim_types_step s d (kovaaksAimTypes acc) of
             Inl e \<Rightarrow> Inl e
           | Inr kat \<Rightarrow>
               Inr (acc\<lparr>totalTimeMinutes := totalTimeMinutes acc + d,
                        gameBreakdown := add_game (gameBreakdown acc) (game s) d,
                        valorantMatchTypes := vmt,
                        kovaaksAimTypes := kat\<rparr>)))"

text \<open>\<^verbatim>\<open>sessions.forEach(callback)\<close>: the first exception ends the loop.\<close>

fun for_each :: "('a \<Rightarrow> 's \<Rightarrow> error + 's) \<Rightarrow> 'a list \<Rightarrow> 's \<Rightarrow> error + 's" where
  "for_each f [] acc = Inr acc"
| "for_each f (x # xs) acc = (case f x acc of Inl e \<Rightarrow> Inl e | Inr acc' \<Rightarrow> for_each f xs acc')"

definition empty_stats :: stats where
  "empty_stats =
     \<lparr>totalSessions = 0, totalTimeMinutes = 0, avgSessionMinutes = 0,
      gameBreakdown = [(''valorant'', Num 0), (''kovaaks'', Num 0)],
      valorantMatchTypes = [], kovaaksAimTypes = []\<rparr>"

text \<open>
  \<^verbatim>\<open>generateSummaryStats(sessions)\<close>. The early return covers the empty array (a
  \<^verbatim>\<open>null\<close> or \<^verbatim>\<open>undefined\<close> argument takes the same branch).
\<close>

definition generateSummaryStats :: "session list \<Rightarrow> error + stats" where
  "generateSummaryStats sessions =
     (if length sessions = 0 then Inr empty_stats
      else
        (case for_each summary_step sessions empty_stats of
           Inl e \<Rightarrow> Inl e
         | Inr acc \<Rightarrow>
             Inr (acc\<lparr>totalSessions := length sessions,
                      avgSessionMinutes :=
                        of_int (totalTimeMinutes acc) / of_nat (length sessions)\<rparr>)))"

subsection \<open>Two sample records\<close>

text \<open>The two sessions of the specification's worked scenario.\<close>

definition valorant_sample :: session where
  "valorant_sample =
     \<lparr>game = ''valorant'', date = ''2024-01-01'', startTime = ''2024-01-01T10:00:00.000Z'',
      endTime = Some ''2024-01-01T10:30:00.000Z'', durationMinutes = Some 30,
      metadata = Some \<lparr>matchTypes = Some [(''competitive'', 2)], aimType = None\<rparr>\<rparr>"

definition kovaaks_sample :: session where
  "kovaaks_sample =
     \<lparr>game = ''kovaaks'', date = ''2024-01-01'', startTime = ''2024-01-01T11:00:00.000Z'',
      endTime = Some ''2024-01-01T11:45:00.000Z'', durationMinutes = Some 45,
      metadata = Some \<lparr>matchTypes = None, aimType = Some ''static-clicking''\<rparr>\<rparr>"

subsection \<open>JSON values and what the aggregators read of them\<close>

text \<open>
  The metadata column of the database holds a JSON text, and \<^verbatim>\<open>JSON.parse\<close> may return any
  JSON value for it: not only an object but also \<^verbatim>\<open>null\<close>, a number, a string (when the text
  was encoded twice), an array.
\<close>

datatype json =
    JNull | JBoolean bool | JNumber rat | JString string
  | JArray "json list" | JObject "(string \<times> json) list"

fun truthy_json :: "json \<Rightarrow> bool" where
  "truthy_json JNull = False"
| "truthy_json (JBoolean b) = b"
| "truthy_json (JNumber n) = (n \<noteq> 0)"
| "truthy_json (JString s) = (s \<noteq> [])"
| "truthy_json (JArray vs) = True"
| "truthy_json (JObject ps) = True"

text \<open>
  \<^verbatim>\<open>v.matchTypes\<close> and \<^verbatim>\<open>v.aimType\<close> on a truthy JSON value: an object gives its property, a
  string, a number, \<^verbatim>\<open>true\<close> and an array have no property of these names.
\<close>

definition json_prop :: "json \<Rightarrow> string \<Rightarrow> json option" where
  "json_prop v k = (case v of JObject ps \<Rightarrow> obj_get ps k | _ \<Rightarrow> None)"

text \<open>
  The summary code reaches into a metadata value in three ways: it tests the value for
  truthiness; it tests \<^verbatim>\<open>matchTypes\<close> for truthiness and adds up the counts of its entries;
  it tests \<^verbatim>\<open>aimType\<close> for truthiness and uses it as a label. \<open>as_metadata\<close> gives the typed
  record of these reads: \<open>None\<close> for a falsy value, and otherwise a record in which a
  \<^verbatim>\<open>matchTypes\<close> that is an object appears as the map of its counts, an \<^verbatim>\<open>aimType\<close> that is
  a string as the label, and a falsy \<^verbatim>\<open>matchTypes\<close> or \<^verbatim>\<open>aimType\<close> as absent.
\<close>

fun count_of :: "json \<Rightarrow> int" where
  "count_of (JNumber n) = \<lfloor>n\<rfloor>"
| "count_of v = 0"

definition counts_of :: "json \<Rightarrow> int object option" where
  "counts_of m =
     (case m of
        JObject cs \<Rightarrow> Some (map (\<lambda>(type, count). (type, count_of count)) cs)
      | _ \<Rightarrow> None)"

definition label_of :: "json \<Rightarrow> string option" where
  "label_of a = (case a of JString l \<Rightarrow> Some l | _ \<Rightarrow> None)"

definition as_metadata :: "json \<Rightarrow> metadata option" where
  "as_metadata v =
     (if truthy_json v then
        Some \<lparr>matchTypes =
                (case json_prop v ''matchTypes'' of None \<Rightarrow> None | Some m \<Rightarrow> counts_of m),
              aimType =
                (case json_prop v ''aimType'' of None \<Rightarrow> None | Some a \<Rightarrow> label_of a)\<rparr>
      else None)"

text \<open>
  The typed record holds everything the code reads of a value, and the objects of this
  development behave as the tallies of the code do, when the value is \<open>plain\<close>: a truthy
  \<^verbatim>\<open>matchTypes\<close> is an object of whole-number counts, a truthy \<^verbatim>\<open>aimType\<close> is a string, and
  no label is the name of a member that every object inherits from \<^verbatim>\<open>Object.prototype\<close>.
  For a value that is not plain the typed record does not tell what the code does; such
  values are met again over the store, where a value is untyped.
\<close>

definition inherited :: "string list" where
  "inherited =
     [''constructor'', ''__defineGetter__'', ''__defineSetter__'', ''hasOwnProperty'',
      ''__lookupGetter__'', ''__lookupSetter__'', ''isPrototypeOf'', ''propertyIsEnumerable'',
      ''toString'', ''valueOf'', ''__proto__'', ''toLocaleString'']"

definition own_name :: "string \<Rightarrow> bool" where
  "own_name k = (k \<notin> set inherited)"

definition whole :: "json \<Rightarrow> bool" where
  "whole c = (case c of JNumber n \<Rightarrow> of_int \<lfloor>n\<rfloor> = n | _ \<Rightarrow> False)"

definition plain_counts :: "json \<Rightarrow> bool" where
  "plain_counts m =
     (if truthy_json m then
        (case m of
           JObject cs \<Rightarrow> list_all (\<lambda>(type, count). own_name type \<and> whole count) cs
         | _ \<Rightarrow> False)
      else True)"

definition plain_label :: "json \<Rightarrow> bool" where
  "plain_label a =
     (if truthy_json a then (case a of JString l \<Rightarrow> own_name l | _ \<Rightarrow> False) else True)"

definition plain :: "json \<Rightarrow> bool" where
  "plain v =
     ((case json_prop v ''matchTypes'' of None \<Rightarrow> True | Some m \<Rightarrow> plain_counts m)
      \<and> (case json_prop v ''aimType'' of None \<Rightarrow> True | Some a \<Rightarrow> plain_label a))"

subsection \<open>The load endpoint of the server\<close>

text \<open>
  Two services of the runtime are parameters. \<^verbatim>\<open>JSON.parse\<close> on a text gives
  \<open>Inl SyntaxError\<close> when it throws and otherwise the parsed value.
  \<^verbatim>\<open>new Date(x).toISOString()\<close> gives \<open>Inl RangeError\<close> when \<^verbatim>\<open>x\<close> is not a valid date and
  the ISO timestamp otherwise.
\<close>

type_synonym json_parse = "string \<Rightarrow> error + json"
type_synonym to_iso_string = "string \<Rightarrow> error + string"

text \<open>A record as the load endpoint sends it: the metadata is a JSON value.\<close>

type_synonym loaded = "json session_record"

text \<open>\<^verbatim>\<open>iso.split('T')[0]\<close>.\<close>

definition before_T :: "string \<Rightarrow> string" where
  "before_T stamp = takeWhile (\<lambda>c. c \<noteq> CHR ''T'') stamp"

text \<open>The test \<^verbatim>\<open>/^\d{4}-\d{2}-\d{2}$/\<close>.\<close>

definition is_digit :: "char \<Rightarrow> bool" where
  "is_digit c = (CHR ''0'' \<le> c \<and> c \<le> CHR ''9'')"

definition is_ymd :: "string \<Rightarrow> bool" where
  "is_ymd d =
     (length d = 10 \<and> list_all (\<lambda>i. is_digit (d ! i)) [0, 1, 2, 3, 5, 6, 8, 9]
        \<and> d ! 4 = CHR ''-'' \<and> d ! 7 = CHR ''-'')"

text \<open>
  The metadata block shared by the load and the stats handlers: a \<^verbatim>\<open>NULL\<close> or empty
  column becomes \<^verbatim>\<open>{}\<close>, a text that does not parse is caught and becomes \<^verbatim>\<open>{}\<close>, and a
  text that parses becomes the value it parses to, whatever that is.
\<close>

definition parse_metadata :: "json_parse \<Rightarrow> string option \<Rightarrow> json" where
  "parse_metadata parse column =
     (case column of
        None \<Rightarrow> JObject []
      | Some txt \<Rightarrow>
          (if truthy_string txt then
             (case parse txt of Inl e \<Rightarrow> JObject [] | Inr v \<Rightarrow> v)
           else JObject []))"

definition normalize_date :: "to_iso_string \<Rightarrow> string \<Rightarrow> error + string" where
  "normalize_date to_iso d =
     (if truthy_string d \<and> \<not> is_ymd d then
        (case to_iso d of Inl e \<Rightarrow> Inl e | Inr t \<Rightarrow> Inr (before_T t))
      else Inr d)"

definition with_metadata :: "'a session_record \<Rightarrow> 'b \<Rightarrow> 'b session_record" where
  "with_metadata r m =
     \<lparr>game = game r, date = date r, startTime = startTime r, endTime = endTime r,
      durationMinutes = durationMinutes r, metadata = m\<rparr>"

definition load_row :: "json_parse \<Rightarrow> to_iso_string \<Rightarrow> row \<Rightarrow> error + loaded" where
  "load_row parse to_iso r =
     (let s = with_metadata r (parse_metadata parse (metadata r)) in
      case normalize_date to_iso (date s) of
        Inl e \<Rightarrow> Inl e
      | Inr d \<Rightarrow> Inr (s\<lparr>date := d\<rparr>))"

text \<open>
  \<^verbatim>\<open>GET /api/sessions/load\<close>: \<open>Inr\<close> is the body of the 200 response, \<open>Inl\<close> the exception
  that the handler's outer \<^verbatim>\<open>catch\<close> turns into a 500 response.
\<close>

fun load_rows :: "json_parse \<Rightarrow> to_iso_string \<Rightarrow> row list \<Rightarrow> error + loaded list" where
  "load_rows parse to_iso [] = Inr []"
| "load_rows parse to_iso (r # rs) =
     (case load_row parse to_iso r of
        Inl e \<Rightarrow> Inl e
      | Inr s \<Rightarrow> (case load_rows parse to_iso rs of Inl e \<Rightarrow> Inl e | Inr ss \<Rightarrow> Inr (s # ss)))"

subsection \<open>The client's load\<close>

text \<open>
  \<^verbatim>\<open>loadFromDatabase()\<close> of the client fetches the load endpoint and goes over the records
  of the response before it hands them on. A date that is not in the form
  \<^verbatim>\<open>YYYY-MM-DD\<close> is converted (the test and the conversion are those of the server); the
  start and end times are strings or \<^verbatim>\<open>null\<close> in a response and are kept; a metadata value
  that is a non-empty string is parsed once more, and becomes \<^verbatim>\<open>{}\<close> when that fails. The
  body of the response is the JSON text of the records, which the client reads back as the
  same values. A response that is not a 200 makes the method reject with an \<^verbatim>\<open>Error\<close>; an
  exception in the loop makes it reject with that exception.
\<close>

definition reparse_metadata :: "json_parse \<Rightarrow> json \<Rightarrow> json" where
  "reparse_metadata parse v =
     (case v of
        JString txt \<Rightarrow>
          (if truthy_string txt then
             (case parse txt of Inl e \<Rightarrow> JObject [] | Inr v' \<Rightarrow> v')
           else v)
      | _ \<Rightarrow> v)"

definition client_session :: "json_parse \<Rightarrow> to_iso_string \<Rightarrow> loaded \<Rightarrow> error + loaded" where
  "client_session parse to_iso s =
     (case normalize_date to_iso (date s) of
        Inl e \<Rightarrow> Inl e
      | Inr d \<Rightarrow> Inr (s\<lparr>date := d, metadata := reparse_metadata parse (metadata s)\<rparr>))"

fun client_sessions :: "json_parse \<Rightarrow> to_iso_string \<Rightarrow> loaded list \<Rightarrow> error + loaded list" where
  "client_sessions parse to_iso [] = Inr []"
| "client_sessions parse to_iso (s # ss) =
     (case client_session parse to_iso s of
        Inl e \<Rightarrow> Inl e
      | Inr s' \<Rightarrow>
          (case client_sessions parse to_iso ss of Inl e \<Rightarrow> Inl e | Inr ss' \<Rightarrow> Inr (s' # ss')))"

definition loadFromDatabase :: "json_parse \<Rightarrow> to_iso_string \<Rightarrow> row list \<Rightarrow> error + loaded list" where
  "loadFromDatabase parse to_iso rows =
     (case load_rows parse to_iso rows of
        Inl e \<Rightarrow> Inl Error
      | Inr response \<Rightarrow> client_sessions parse to_iso response)"

text \<open>The loaded record as the summary code reads it.\<close>

definition as_session :: "loaded \<Rightarrow> session" where
  "as_session s = with_metadata s (as_metadata (metadata s))"

subsection \<open>Labels seen in the data\<close>

text \<open>
  The match-type labels and the aim-type labels that the metadata of a collection carries,
  whatever the game of the record.
\<close>

definition match_labels :: "session \<Rightarrow> string set" where
  "match_labels s =
     (case metadata s of
        None \<Rightarrow> {}
      | Some m \<Rightarrow> (case matchTypes m of None \<Rightarrow> {} | Some mt \<Rightarrow> set (obj_keys mt)))"

definition aim_labels :: "session \<Rightarrow> string set" where
  "aim_labels s =
     (case metadata s of
        None \<Rightarrow> {}
      | Some m \<Rightarrow> (case aimType m of None \<Rightarrow> {} | Some a \<Rightarrow> {a}))"

subsection \<open>The callback without its error branch\<close>

text \<open>
  The two metadata blocks of the callback never take their error branch (shown below as
  \<open>match_types_step_total\<close> and \<open>aim_types_step_total\<close>); these are the values they return,
  named so that the result of a whole loop can be written as a \<open>fold\<close>.
\<close>

definition tally_matches :: "session \<Rightarrow> int object \<Rightarrow> int object" where
  "tally_matches s vmt = (case match_types_step s vmt of Inl e \<Rightarrow> vmt | Inr vmt' \<Rightarrow> vmt')"

definition tally_aims :: "session \<Rightarrow> int object \<Rightarrow> int object" where
  "tally_aims s kat =
     (case aim_types_step s (or_zero (durationMinutes s)) kat of
        Inl e \<Rightarrow> kat | Inr kat' \<Rightarrow> kat')"

definition tally_game :: "session \<Rightarrow> jsnum object \<Rightarrow> jsnum object" where
  "tally_game s gb = add_game gb (game s) (or_zero (durationMinutes s))"



text \<open>
  A record without metadata (as an import or an old cache entry has it), a database row
  whose metadata column is not JSON, and stand-ins for the two runtime services that
  behave as the runtime does on the texts used below. \<open>stringify_string\<close> is the text
  that \<^verbatim>\<open>JSON.stringify\<close> gives for a string of printable ASCII characters: the string in
  double quotes, with a backslash before every double quote and backslash of it.
\<close>

definition bare_sample :: session where
  "bare_sample =
     \<lparr>game = ''kovaaks'', date = ''2024-01-02'', startTime = ''2024-01-02T09:00:00.000Z'',
      endTime = Some ''2024-01-02T09:20:00.000Z'', durationMinutes = Some 20,
      metadata = None\<rparr>"

definition broken_row :: row where
  "broken_row =
     \<lparr>game = ''valorant'', date = ''2024-01-03'', startTime = ''2024-01-03T09:00:00.000Z'',
      endTime = Some ''2024-01-03T09:10:00.000Z'', durationMinutes = Some 10,
      metadata = Some ''{matchTypes''\<rparr>"

definition stringify_string :: "string \<Rightarrow> string" where
  "stringify_string s =
     CHR ''\"''
       # concat (map (\<lambda>c. if c = CHR ''\"'' \<or> c = CHR 0x5C then [CHR 0x5C, c] else [c]) s)
       @ [CHR ''\"'']"

definition sample_parse :: json_parse where
  "sample_parse txt =
     (if txt = ''{}'' then Inr (JObject [])
      else if txt = ''null'' then Inr JNull
      else if txt = ''{\"aimType\":\"tracking\"}''
        then Inr (JObject [(''aimType'', JString ''tracking'')])
      else if txt = ''{\"matchTypes\":{\"unrated\":1}}''
        then Inr (JObject [(''matchTypes'', JObject [(''unrated'', JNumber 1)])])
      else if txt = stringify_string ''{\"aimType\":\"tracking\"}''
        then Inr (JString ''{\"aimType\":\"tracking\"}'')
      else Inl SyntaxError)"

definition sample_to_iso :: to_iso_string where
  "sample_to_iso d = (if is_ymd d then Inr (d @ ''T00:00:00.000Z'') else Inl RangeError)"

subsection \<open>The client aggregator: daily trend\<close>

text \<open>
  The part of the chart data that depends on the sessions: the labels and the \<^verbatim>\<open>data\<close>
  arrays of the two datasets (an element is \<open>None\<close> where the property read gives
  \<^verbatim>\<open>undefined\<close>). The titles and colours of the datasets are constants.
\<close>

record chart =
  labels :: "string list"
  valorant_data :: "jsnum option list"
  kovaaks_data :: "jsnum option list"

text \<open>\<^verbatim>\<open>array.map(f)\<close> for an \<open>f\<close> that may throw.\<close>

fun map_each :: "('a \<Rightarrow> error + 'b) \<Rightarrow> 'a list \<Rightarrow> error + 'b list" where
  "map_each f [] = Inr []"
| "map_each f (x # xs) =
     (case f x of
        Inl e \<Rightarrow> Inl e
      | Inr y \<Rightarrow> (case map_each f xs of Inl e \<Rightarrow> Inl e | Inr ys \<Rightarrow> Inr (y # ys)))"

text \<open>
  The callback of the loop. \<^verbatim>\<open>dailyData\<close> maps a date to an object that starts as
  \<^verbatim>\<open>{valorant: 0, kovaaks: 0}\<close>; \<^verbatim>\<open>dailyData[dateStr][session.game] += durationMinutes\<close>
  changes that object in place, which is written back here.
\<close>

definition daily_step ::
  "to_iso_string \<Rightarrow> session \<Rightarrow> jsnum object object \<Rightarrow> error + jsnum object object" where
  "daily_step to_iso session dailyData =
     (case to_iso (date session) of
        Inl e \<Rightarrow> Inl e
      | Inr stamp \<Rightarrow>
          (let dateStr = before_T stamp;
               dailyData1 =
                 (if obj_get dailyData dateStr = None
                  then obj_set dailyData dateStr [(''valorant'', Num 0), (''kovaaks'', Num 0)]
                  else dailyData);
               d = or_zero (durationMinutes session)
           in case obj_get dailyData1 dateStr of
                None \<Rightarrow> Inl TypeError
              | Some entry \<Rightarrow>
                  Inr (obj_set dailyData1 dateStr (add_game entry (game session) d))))"

text \<open>\<^verbatim>\<open>sortedDates.map(date => dailyData[date][key])\<close>.\<close>

definition read_series ::
  "string \<Rightarrow> jsnum object object \<Rightarrow> string list \<Rightarrow> error + jsnum option list" where
  "read_series key dailyData dates =
     map_each (\<lambda>d. case obj_get dailyData d of
                       None \<Rightarrow> Inl TypeError
                     | Some entry \<Rightarrow> Inr (obj_get entry key)) dates"

text \<open>
  \<^verbatim>\<open>prepareDailyTrendData(sessions)\<close>. \<^verbatim>\<open>Object.keys(dailyData).sort()\<close> orders the keys
  by their code units, which is the lexicographic order of strings.
\<close>

definition prepareDailyTrendData :: "to_iso_string \<Rightarrow> session list \<Rightarrow> error + chart" where
  "prepareDailyTrendData to_iso sessions =
     (case for_each (daily_step to_iso) sessions [] of
        Inl e \<Rightarrow> Inl e
      | Inr dailyData \<Rightarrow>
          (let sortedDates = sort (obj_keys dailyData) in
           case read_series ''valorant'' dailyData sortedDates of
             Inl e \<Rightarrow> Inl e
           | Inr vs \<Rightarrow>
               (case read_series ''kovaaks'' dailyData sortedDates of
                  Inl e \<Rightarrow> Inl e
                | Inr ks \<Rightarrow>
                    Inr \<lparr>labels = sortedDates, valorant_data = vs, kovaaks_data = ks\<rparr>)))"

subsection \<open>What the daily trend is compared with\<close>

text \<open>
  The canonical date of a record whose date is valid, and the total minutes of the
  records of a collection with a given canonical date and game.
\<close>

definition canonical_date :: "to_iso_string \<Rightarrow> session \<Rightarrow> string" where
  "canonical_date to_iso s = (case to_iso (date s) of Inl e \<Rightarrow> [] | Inr stamp \<Rightarrow> before_T stamp)"

definition valid_date :: "to_iso_string \<Rightarrow> session \<Rightarrow> bool" where
  "valid_date to_iso s = (case to_iso (date s) of Inl e \<Rightarrow> False | Inr stamp \<Rightarrow> True)"

definition minutes_on :: "to_iso_string \<Rightarrow> session list \<Rightarrow> string \<Rightarrow> string \<Rightarrow> int" where
  "minutes_on to_iso ss d g =
     (\<Sum>s\<leftarrow>filter (\<lambda>s. canonical_date to_iso s = d \<and> game s = g) ss.
        case durationMinutes s of None \<Rightarrow> 0 | Some n \<Rightarrow> n)"

definition minutes_on_date :: "to_iso_string \<Rightarrow> session list \<Rightarrow> string \<Rightarrow> int" where
  "minutes_on_date to_iso ss d =
     (\<Sum>s\<leftarrow>filter (\<lambda>s. canonical_date to_iso s = d) ss.
        case durationMinutes s of None \<Rightarrow> 0 | Some n \<Rightarrow> n)"

text \<open>
  The minutes that \<^verbatim>\<open>dailyData\<close> holds for a date and a game (0 where there is no such
  number), and the condition that every entry holds a number for both games.
\<close>

definition held_minutes :: "jsnum object object \<Rightarrow> string \<Rightarrow> string \<Rightarrow> int" where
  "held_minutes dailyData d g =
     (case obj_get dailyData d of
        None \<Rightarrow> 0
      | Some entry \<Rightarrow> (case obj_get entry g of Some (Num n) \<Rightarrow> n | _ \<Rightarrow> 0))"

definition holds_number :: "jsnum object \<Rightarrow> string \<Rightarrow> bool" where
  "holds_number entry g = (case obj_get entry g of Some (Num n) \<Rightarrow> True | _ \<Rightarrow> False)"

definition both_games_held :: "jsnum object object \<Rightarrow> bool" where
  "both_games_held dailyData =
     list_all (\<lambda>(d, entry). holds_number entry ''valorant'' \<and> holds_number entry ''kovaaks'')
       dailyData"

text \<open>A record of a game that the tracker does not know, and one with an unusable date.\<close>

definition other_game_sample :: session where
  "other_game_sample =
     \<lparr>game = ''osu'', date = ''2024-01-01'', startTime = ''2024-01-01T12:00:00.000Z'',
      endTime = Some ''2024-01-01T12:30:00.000Z'', durationMinutes = Some 30,
      metadata = Some empty_metadata\<rparr>"

definition bad_date_sample :: session where
  "bad_date_sample =
     \<lparr>game = ''valorant'', date = ''yesterday'', startTime = ''2024-01-01T12:00:00.000Z'',
      endTime = Some ''2024-01-01T12:30:00.000Z'', durationMinutes = Some 30,
      metadata = Some empty_metadata\<rparr>"

definition known_game :: "session \<Rightarrow> bool" where
  "known_game s = (game s = ''valorant'' \<or> game s = ''kovaaks'')"

definition minutes_of_known :: "to_iso_string \<Rightarrow> session list \<Rightarrow> string \<Rightarrow> int" where
  "minutes_of_known to_iso ss d =
     (\<Sum>s\<leftarrow>filter (\<lambda>s. canonical_date to_iso s = d \<and> known_game s) ss.
        case durationMinutes s of None \<Rightarrow> 0 | Some n \<Rightarrow> n)"

subsection \<open>The stats endpoint of the server\<close>

text \<open>
  The aggregate queries over the table. \<^verbatim>\<open>COUNT(*)\<close> counts the rows.
  \<^verbatim>\<open>SUM(durationMinutes)\<close> adds the values of the \<^verbatim>\<open>INTEGER\<close> column row by row in 64-bit
  arithmetic: it skips \<^verbatim>\<open>NULL\<close>, is \<^verbatim>\<open>NULL\<close> when no row has a value, and the query fails
  with an integer overflow when a sum leaves the 64-bit range. \<open>seen\<close> tells whether a value
  has been added, \<open>acc\<close> is the sum so far.
\<close>

definition sql_count :: "row list \<Rightarrow> nat" where
  "sql_count rows = length rows"

definition int64 :: "int \<Rightarrow> bool" where
  "int64 n = (- (2 ^ 63) \<le> n \<and> n < 2 ^ 63)"

fun sql_sum :: "int option list \<Rightarrow> bool \<Rightarrow> int \<Rightarrow> error + int option" where
  "sql_sum [] seen acc = Inr (if seen then Some acc else None)"
| "sql_sum (None # ds) seen acc = sql_sum ds seen acc"
| "sql_sum (Some n # ds) seen acc =
     (if int64 (acc + n) then sql_sum ds True (acc + n) else Inl SqliteError)"

definition sql_sum_duration :: "row list \<Rightarrow> error + int option" where
  "sql_sum_duration rows = sql_sum (map durationMinutes rows) False 0"

definition where_game :: "string \<Rightarrow> row list \<Rightarrow> row list" where
  "where_game g rows = filter (\<lambda>r. game r = g) rows"

text \<open>\<^verbatim>\<open>n + x\<close> where \<^verbatim>\<open>x\<close> is a number or \<^verbatim>\<open>null\<close> (a column read from the table).\<close>

fun plus_nullable :: "int \<Rightarrow> int option \<Rightarrow> int" where
  "plus_nullable n None = n"
| "plus_nullable n (Some m) = n + m"

text \<open>
  The callback of the handler's second loop. Its Valorant block is the text of the client's
  block, hence \<open>match_types_step\<close>; its Kovaaks block adds \<^verbatim>\<open>session.durationMinutes\<close>
  itself.
\<close>

definition server_aim_types_step :: "session \<Rightarrow> int object \<Rightarrow> error + int object" where
  "server_aim_types_step s kat =
     (if game s = ''kovaaks'' \<and> truthy_metadata (metadata s) then
        (case read_aimType (metadata s) of
           Inl e \<Rightarrow> Inl e
         | Inr None \<Rightarrow> Inr kat
         | Inr (Some a) \<Rightarrow>
             (if truthy_string a
              then Inr (obj_set kat a
                          (plus_nullable (or_zero (obj_get kat a)) (durationMinutes s)))
              else Inr kat))
      else Inr kat)"

definition stats_step ::
  "session \<Rightarrow> int object \<times> int object \<Rightarrow> error + int object \<times> int object" where
  "stats_step s acc =
     (case match_types_step s (fst acc) of
        Inl e \<Rightarrow> Inl e
      | Inr vmt \<Rightarrow>
          (case server_aim_types_step s (snd acc) of
             Inl e \<Rightarrow> Inl e
           | Inr kat \<Rightarrow> Inr (vmt, kat)))"

text \<open>
  \<^verbatim>\<open>GET /api/sessions/stats\<close>: \<open>Inr\<close> is the \<^verbatim>\<open>stats\<close> object of the 200 response, \<open>Inl\<close>
  the exception that the outer \<^verbatim>\<open>catch\<close> turns into a 500 response. The three sums are
  queries and each may fail; the loop reads the parsed metadata of a row as \<open>as_metadata\<close>
  gives it.
\<close>

definition stats_endpoint :: "json_parse \<Rightarrow> row list \<Rightarrow> error + stats" where
  "stats_endpoint parse rows =
     (let total_sessions = sql_count rows in
      case sql_sum_duration rows of
        Inl e \<Rightarrow> Inl e
      | Inr sum_all \<Rightarrow>
     (let total_time = or_zero sum_all;
          avg = (if total_sessions > 0 then of_int total_time / of_nat total_sessions else 0)
      in
      case sql_sum_duration (where_game ''valorant'' rows) of
        Inl e \<Rightarrow> Inl e
      | Inr sum_valorant \<Rightarrow>
     (case sql_sum_duration (where_game ''kovaaks'' rows) of
        Inl e \<Rightarrow> Inl e
      | Inr sum_kovaaks \<Rightarrow>
     (let valorantMinutes = or_zero sum_valorant;
          kovaaksMinutes = or_zero sum_kovaaks;
          parsed =
            map (\<lambda>r. with_metadata r (as_metadata (parse_metadata parse (metadata r)))) rows
      in
      case for_each stats_step parsed ([], []) of
        Inl e \<Rightarrow> Inl e
      | Inr acc \<Rightarrow>
          Inr \<lparr>totalSessions = total_sessions, totalTimeMinutes = total_time,
               avgSessionMinutes = avg,
               gameBreakdown =
                 [(''valorant'', Num valorantMinutes), (''kovaaks'', Num kovaaksMinutes)],
               valorantMatchTypes = fst acc, kovaaksAimTypes = snd acc\<rparr>))))"

text \<open>
  The rows for which the statistics of the server are compared with those of the client:
  the metadata that the server parses is plain and is not a string that the client would
  parse once more, and the durations are small enough for every sum to be exact, in the
  64-bit integers of the database as in the floating-point numbers of the language.
\<close>

definition holds_text :: "json \<Rightarrow> bool" where
  "holds_text v = (case v of JString txt \<Rightarrow> truthy_string txt | _ \<Rightarrow> False)"

definition plain_row :: "json_parse \<Rightarrow> row \<Rightarrow> bool" where
  "plain_row parse r =
     (plain (parse_metadata parse (metadata r))
      \<and> \<not> holds_text (parse_metadata parse (metadata r)))"

definition safe_minutes :: "row list \<Rightarrow> bool" where
  "safe_minutes rows = ((\<Sum>r\<leftarrow>rows. \<bar>or_zero (durationMinutes r)\<bar>) < 2 ^ 53)"

text \<open>
  A row of a game that the tracker does not know; two rows whose durations add up to
  \<open>2 ^ 63\<close>; a row whose metadata was encoded twice; four rows of the ordinary kind, one
  without a duration and one with a broken metadata text.
\<close>

definition other_game_row :: row where
  "other_game_row =
     \<lparr>game = ''osu'', date = ''2024-01-01'', startTime = ''2024-01-01T12:00:00.000Z'',
      endTime = Some ''2024-01-01T12:30:00.000Z'', durationMinutes = Some 30,
      metadata = None\<rparr>"

definition long_row :: row where
  "long_row =
     \<lparr>game = ''valorant'', date = ''2024-01-01'', startTime = ''2024-01-01T12:00:00.000Z'',
      endTime = None, durationMinutes = Some 4611686018427387904, metadata = None\<rparr>"

definition twice_encoded_row :: row where
  "twice_encoded_row =
     \<lparr>game = ''kovaaks'', date = ''2024-01-01'', startTime = ''2024-01-01T11:00:00.000Z'',
      endTime = Some ''2024-01-01T11:45:00.000Z'', durationMinutes = Some 45,
      metadata = Some (stringify_string ''{\"aimType\":\"tracking\"}'')\<rparr>"

definition sample_rows :: "row list" where
  "sample_rows =
     [\<lparr>game = ''valorant'', date = ''2024-01-01'', startTime = ''2024-01-01T10:00:00.000Z'',
       endTime = Some ''2024-01-01T10:30:00.000Z'', durationMinutes = Some 30,
       metadata = Some ''{\"matchTypes\":{\"unrated\":1}}''\<rparr>,
      \<lparr>game = ''kovaaks'', date = ''2024-01-01'', startTime = ''2024-01-01T11:00:00.000Z'',
       endTime = None, durationMinutes = None,
       metadata = Some ''{\"aimType\":\"tracking\"}''\<rparr>,
      \<lparr>game = ''kovaaks'', date = ''2024-01-02'', startTime = ''2024-01-02T11:00:00.000Z'',
       endTime = Some ''2024-01-02T11:25:00.000Z'', durationMinutes = Some 25,
       metadata = Some ''{\"aimType\":\"tracking\"}''\<rparr>,
      broken_row]"

subsection \<open>The aggregator over a store\<close>

text \<open>
  The definitions above take a session collection as a value and return a value, so they
  cannot say whether the call changes the objects it was given. Here the two aggregator
  functions are read once more, statement by statement, as programs over a store of objects
  and arrays, every property read and write being explicit.

  A value is a primitive or a reference to a cell of the store; an address is an index into
  the store and a new cell is placed at its end. An effect takes the store and returns the
  store it leaves, with the value it returns (\<open>Inr\<close>) or the exception it throws (\<open>Inl\<close>).
\<close>

datatype val =
  VUndefined | VNull | VBoolean bool | VNumber rat | VNaN | VString string | VRef nat

datatype cell = Object "val object" | Array "val list"

type_synonym store = "cell list"

type_synonym 'a effect = "store \<Rightarrow> store \<times> (error + 'a)"

definition ret :: "'a \<Rightarrow> 'a effect" where
  "ret x h = (h, Inr x)"

definition throw :: "error \<Rightarrow> 'a effect" where
  "throw e h = (h, Inl e)"

definition and_then :: "'a effect \<Rightarrow> ('a \<Rightarrow> 'b effect) \<Rightarrow> 'b effect" where
  "and_then m f h = (case m h of (h', Inl e) \<Rightarrow> (h', Inl e) | (h', Inr x) \<Rightarrow> f x h')"

text \<open>A computation that only reads the store.\<close>

definition reading :: "(store \<Rightarrow> 'a) \<Rightarrow> 'a effect" where
  "reading f h = (h, Inr (f h))"

definition reading_or_throw :: "(store \<Rightarrow> error + 'a) \<Rightarrow> 'a effect" where
  "reading_or_throw f h = (h, f h)"

fun truthy :: "val \<Rightarrow> bool" where
  "truthy VUndefined = False"
| "truthy VNull = False"
| "truthy (VBoolean b) = b"
| "truthy (VNumber n) = (n \<noteq> 0)"
| "truthy VNaN = False"
| "truthy (VString s) = (s \<noteq> [])"
| "truthy (VRef a) = True"

definition cell_at :: "store \<Rightarrow> nat \<Rightarrow> cell option" where
  "cell_at h a = (if a < length h then Some (h ! a) else None)"

text \<open>
  A named property of a cell. The elements of an array are read by the loops below, through
  \<open>elements\<close>; of an array's named properties only \<^verbatim>\<open>length\<close> is modelled.
\<close>

fun cell_prop :: "cell \<Rightarrow> string \<Rightarrow> val" where
  "cell_prop (Object ps) k = (case obj_get ps k of None \<Rightarrow> VUndefined | Some v \<Rightarrow> v)"
| "cell_prop (Array vs) k = (if k = ''length'' then VNumber (of_nat (length vs)) else VUndefined)"

text \<open>
  \<^verbatim>\<open>v[k]\<close>: a TypeError on \<^verbatim>\<open>undefined\<close> and \<^verbatim>\<open>null\<close>; of the properties of a primitive
  only the \<^verbatim>\<open>length\<close> of a string is modelled.
\<close>

fun get_prop :: "val \<Rightarrow> string \<Rightarrow> val effect" where
  "get_prop VUndefined k = throw TypeError"
| "get_prop VNull k = throw TypeError"
| "get_prop (VRef a) k =
     reading (\<lambda>h. case cell_at h a of None \<Rightarrow> VUndefined | Some c \<Rightarrow> cell_prop c k)"
| "get_prop (VString s) k =
     ret (if k = ''length'' then VNumber (of_nat (length s)) else VUndefined)"
| "get_prop v k = ret VUndefined"

text \<open>
  \<^verbatim>\<open>target[k] = x\<close>. The code is strict (it is the body of a class), so a write to a
  primitive throws as a write to \<^verbatim>\<open>undefined\<close> does. Every target in the two functions is
  an object that the function created; a write to an array does not occur and is not
  modelled further.
\<close>

fun set_prop :: "val \<Rightarrow> string \<Rightarrow> val \<Rightarrow> unit effect" where
  "set_prop (VRef a) k x =
     (\<lambda>h. case cell_at h a of
            Some (Object ps) \<Rightarrow> (h[a := Object (obj_set ps k x)], Inr ())
          | _ \<Rightarrow> (h, Inl TypeError))"
| "set_prop target k x = throw TypeError"

text \<open>A new cell; the effect returns its address.\<close>

definition alloc :: "cell \<Rightarrow> nat effect" where
  "alloc c h = (h @ [c], Inr (length h))"

definition elements :: "store \<Rightarrow> val \<Rightarrow> val list option" where
  "elements h v =
     (case v of
        VRef a \<Rightarrow> (case cell_at h a of Some (Array vs) \<Rightarrow> Some vs | _ \<Rightarrow> None)
      | _ \<Rightarrow> None)"

text \<open>
  \<^verbatim>\<open>array.forEach(callback)\<close>, with the local variables that the callback updates passed
  along as \<open>acc\<close>: the length is read once, each element is read from the store when its
  turn comes, and an index that is no longer in the array is skipped. On anything but an
  array \<^verbatim>\<open>forEach\<close> is not a function.
\<close>

fun over_indices :: "(val \<Rightarrow> 'a \<Rightarrow> 'a effect) \<Rightarrow> val \<Rightarrow> nat list \<Rightarrow> 'a \<Rightarrow> 'a effect" where
  "over_indices f arr [] acc = ret acc"
| "over_indices f arr (i # is) acc =
     and_then
       (\<lambda>h. case elements h arr of
              None \<Rightarrow> (h, Inr acc)
            | Some vs \<Rightarrow> (if i < length vs then f (vs ! i) acc h else (h, Inr acc)))
       (\<lambda>acc'. over_indices f arr is acc')"

definition forEach :: "val \<Rightarrow> (val \<Rightarrow> 'a \<Rightarrow> 'a effect) \<Rightarrow> 'a \<Rightarrow> 'a effect" where
  "forEach arr f acc =
     (\<lambda>h. case elements h arr of
            None \<Rightarrow> (h, Inl TypeError)
          | Some vs \<Rightarrow> over_indices f arr [0..<length vs] acc h)"

text \<open>A loop over a list that the function holds itself (entries, sorted keys).\<close>

fun over_list :: "('b \<Rightarrow> unit effect) \<Rightarrow> 'b list \<Rightarrow> unit effect" where
  "over_list f [] = ret ()"
| "over_list f (x # xs) = and_then (f x) (\<lambda>u. over_list f xs)"

fun collect :: "('b \<Rightarrow> 'c effect) \<Rightarrow> 'b list \<Rightarrow> 'c list effect" where
  "collect f [] = ret []"
| "collect f (x # xs) =
     and_then (f x) (\<lambda>y. and_then (collect f xs) (\<lambda>ys. ret (y # ys)))"

text \<open>
  The operations of the language and its library that the two functions apply to values are
  parameters; each may read the store and none writes it: the operators \<^verbatim>\<open>+\<close> and \<^verbatim>\<open>/\<close>,
  the conversion of a value to a property key, \<^verbatim>\<open>Object.entries\<close>, \<^verbatim>\<open>Object.keys\<close>, and
  \<^verbatim>\<open>new Date(v).toISOString()\<close>. The operator \<^verbatim>\<open>+\<close> and the conversion to a property key
  turn an object operand into a primitive first, and throw a TypeError when the object has
  no usable \<^verbatim>\<open>toString\<close> or \<^verbatim>\<open>valueOf\<close>.
\<close>

record runtime =
  js_plus :: "store \<Rightarrow> val \<Rightarrow> val \<Rightarrow> error + val"
  js_divide :: "store \<Rightarrow> val \<Rightarrow> val \<Rightarrow> val"
  js_key :: "store \<Rightarrow> val \<Rightarrow> error + string"
  js_entries :: "store \<Rightarrow> val \<Rightarrow> (string \<times> val) list"
  js_keys :: "store \<Rightarrow> val \<Rightarrow> string list"
  js_date_iso :: "store \<Rightarrow> val \<Rightarrow> error + string"

text \<open>\<^verbatim>\<open>x || 0\<close>.\<close>

definition or_number_zero :: "val \<Rightarrow> val" where
  "or_number_zero x = (if truthy x then x else VNumber 0)"

text \<open>\<^verbatim>\<open>tally[key] = (tally[key] || 0) + x\<close> on the object at address \<open>tally\<close>.\<close>

definition add_to_tally :: "runtime \<Rightarrow> nat \<Rightarrow> string \<Rightarrow> val \<Rightarrow> unit effect" where
  "add_to_tally rt tally key x =
     and_then (get_prop (VRef tally) key) (\<lambda>old.
     and_then (reading_or_throw (\<lambda>h. js_plus rt h (or_number_zero old) x)) (\<lambda>new.
     set_prop (VRef tally) key new))"

text \<open>
  The callback of \<^verbatim>\<open>generateSummaryStats\<close>. \<open>gb\<close>, \<open>vmt\<close> and \<open>kat\<close> are the addresses of
  \<^verbatim>\<open>gameBreakdown\<close>, \<^verbatim>\<open>valorantMatchTypes\<close> and \<^verbatim>\<open>kovaaksAimTypes\<close>; \<open>minutes\<close> is
  \<^verbatim>\<open>totalTimeMinutes\<close>.
\<close>

definition summary_callback ::
  "runtime \<Rightarrow> nat \<Rightarrow> nat \<Rightarrow> nat \<Rightarrow> val \<Rightarrow> val \<Rightarrow> val effect" where
  "summary_callback rt gb vmt kat session minutes =
     and_then (get_prop session ''durationMinutes'') (\<lambda>dm.
     and_then (reading_or_throw (\<lambda>h. js_plus rt h minutes (or_number_zero dm))) (\<lambda>minutes'.
     and_then (get_prop session ''game'') (\<lambda>g.
     and_then (reading_or_throw (\<lambda>h. js_key rt h g)) (\<lambda>key.
     and_then (get_prop (VRef gb) key) (\<lambda>old.
     and_then (reading_or_throw (\<lambda>h. js_plus rt h old (or_number_zero dm))) (\<lambda>new.
     and_then (set_prop (VRef gb) key new) (\<lambda>u.
     and_then (get_prop session ''game'') (\<lambda>g1.
     and_then
       (if g1 = VString ''valorant'' then
          and_then (get_prop session ''metadata'') (\<lambda>md.
          if truthy md then
            and_then (get_prop md ''matchTypes'') (\<lambda>mt.
            if truthy mt then
              and_then (reading (\<lambda>h. js_entries rt h mt)) (\<lambda>entries.
              over_list (\<lambda>(type, count). add_to_tally rt vmt type count) entries)
            else ret ())
          else ret ())
        else ret ()) (\<lambda>u.
     and_then (get_prop session ''game'') (\<lambda>g2.
     and_then
       (if g2 = VString ''kovaaks'' then
          and_then (get_prop session ''metadata'') (\<lambda>md.
          if truthy md then
            and_then (get_prop md ''aimType'') (\<lambda>aim.
            if truthy aim then
              and_then (reading_or_throw (\<lambda>h. js_key rt h aim)) (\<lambda>key.
              add_to_tally rt kat key (or_number_zero dm))
            else ret ())
          else ret ())
        else ret ()) (\<lambda>u.
     ret minutes')))))))))))"

definition stats_object :: "val \<Rightarrow> val \<Rightarrow> val \<Rightarrow> nat \<Rightarrow> nat \<Rightarrow> nat \<Rightarrow> cell" where
  "stats_object n minutes avg gb vmt kat =
     Object [(''totalSessions'', n), (''totalTimeMinutes'', minutes),
             (''avgSessionMinutes'', avg), (''gameBreakdown'', VRef gb),
             (''valorantMatchTypes'', VRef vmt), (''kovaaksAimTypes'', VRef kat)]"

text \<open>\<^verbatim>\<open>generateSummaryStats(sessions)\<close> over the store; it returns a reference to the result.\<close>

definition generateSummaryStats_store :: "runtime \<Rightarrow> val \<Rightarrow> val effect" where
  "generateSummaryStats_store rt sessions =
     and_then
       (if truthy sessions
        then and_then (get_prop sessions ''length'') (\<lambda>n. ret (n = VNumber 0))
        else ret True) (\<lambda>no_sessions.
     and_then (alloc (Object [(''valorant'', VNumber 0), (''kovaaks'', VNumber 0)])) (\<lambda>gb.
     and_then (alloc (Object [])) (\<lambda>vmt.
     and_then (alloc (Object [])) (\<lambda>kat.
     if no_sessions then
       and_then (alloc (stats_object (VNumber 0) (VNumber 0) (VNumber 0) gb vmt kat)) (\<lambda>r.
       ret (VRef r))
     else
       and_then (forEach sessions (summary_callback rt gb vmt kat) (VNumber 0)) (\<lambda>minutes.
       and_then (get_prop sessions ''length'') (\<lambda>n.
       and_then (reading (\<lambda>h. js_divide rt h minutes n)) (\<lambda>avg.
       and_then (alloc (stats_object n minutes avg gb vmt kat)) (\<lambda>r.
       ret (VRef r)))))))))"

text \<open>
  The callback of \<^verbatim>\<open>prepareDailyTrendData\<close>; \<open>dd\<close> is the address of \<^verbatim>\<open>dailyData\<close>.
\<close>

definition daily_callback :: "runtime \<Rightarrow> nat \<Rightarrow> val \<Rightarrow> unit \<Rightarrow> unit effect" where
  "daily_callback rt dd session u0 =
     and_then (get_prop session ''date'') (\<lambda>d.
     and_then (reading_or_throw (\<lambda>h. js_date_iso rt h d)) (\<lambda>stamp.
     and_then (get_prop (VRef dd) (before_T stamp)) (\<lambda>present.
     and_then
       (if \<not> truthy present then
          and_then (alloc (Object [(''valorant'', VNumber 0), (''kovaaks'', VNumber 0)])) (\<lambda>e.
          set_prop (VRef dd) (before_T stamp) (VRef e))
        else ret ()) (\<lambda>u.
     and_then (get_prop session ''durationMinutes'') (\<lambda>dm.
     and_then (get_prop (VRef dd) (before_T stamp)) (\<lambda>entry.
     and_then (get_prop session ''game'') (\<lambda>g.
     and_then (reading_or_throw (\<lambda>h. js_key rt h g)) (\<lambda>key.
     and_then (get_prop entry key) (\<lambda>old.
     and_then (reading_or_throw (\<lambda>h. js_plus rt h old (or_number_zero dm))) (\<lambda>new.
     set_prop entry key new))))))))))"

text \<open>\<^verbatim>\<open>sortedDates.map(date => dailyData[date][key])\<close>.\<close>

definition series :: "nat \<Rightarrow> string \<Rightarrow> string list \<Rightarrow> val list effect" where
  "series dd key dates =
     collect (\<lambda>d. and_then (get_prop (VRef dd) d) (\<lambda>entry. get_prop entry key)) dates"

definition dataset_object :: "string \<Rightarrow> nat \<Rightarrow> string \<Rightarrow> string \<Rightarrow> cell" where
  "dataset_object title data background border =
     Object [(''label'', VString title), (''data'', VRef data),
             (''backgroundColor'', VString background), (''borderColor'', VString border),
             (''borderWidth'', VNumber 1)]"

text \<open>\<^verbatim>\<open>prepareDailyTrendData(sessions)\<close> over the store.\<close>

definition prepareDailyTrendData_store :: "runtime \<Rightarrow> val \<Rightarrow> val effect" where
  "prepareDailyTrendData_store rt sessions =
     and_then (alloc (Object [])) (\<lambda>dd.
     and_then (forEach sessions (daily_callback rt dd) ()) (\<lambda>u.
     and_then (reading (\<lambda>h. sort (js_keys rt h (VRef dd)))) (\<lambda>sortedDates.
     and_then (alloc (Array (map VString sortedDates))) (\<lambda>labels.
     and_then (series dd ''valorant'' sortedDates) (\<lambda>vs.
     and_then (alloc (Array vs)) (\<lambda>vdata.
     and_then (alloc (dataset_object ''Valorant'' vdata
                        ''rgba(255, 99, 132, 0.5)'' ''rgb(255, 99, 132)'')) (\<lambda>vset.
     and_then (series dd ''kovaaks'' sortedDates) (\<lambda>ks.
     and_then (alloc (Array ks)) (\<lambda>kdata.
     and_then (alloc (dataset_object ''Kovaaks Aim Trainer'' kdata
                        ''rgba(54, 162, 235, 0.5)'' ''rgb(54, 162, 235)'')) (\<lambda>kset.
     and_then (alloc (Array [VRef vset, VRef kset])) (\<lambda>datasets.
     and_then (alloc (Object [(''labels'', VRef labels), (''datasets'', VRef datasets)]))
       (\<lambda>chartData. ret (VRef chartData)))))))))))))"

subsection \<open>What a call leaves in place\<close>

text \<open>
  \<open>framed h0 h\<close>: the store \<open>h\<close> begins with the cells of \<open>h0\<close>, unchanged.
  \<open>fresh_days h0 dd h\<close>: moreover the object at \<open>dd\<close> was created after \<open>h0\<close> and each of
  its properties refers to a cell created after it.
  \<open>keeps J m Q\<close>: from a store that satisfies \<open>J\<close> the effect \<open>m\<close> leaves a store that
  satisfies \<open>J\<close>, and a value it returns satisfies \<open>Q\<close>.
\<close>

definition framed :: "store \<Rightarrow> store \<Rightarrow> bool" where
  "framed h0 h = (length h0 \<le> length h \<and> take (length h0) h = h0)"

definition refers_above :: "nat \<Rightarrow> val \<Rightarrow> bool" where
  "refers_above dd v = (case v of VRef a \<Rightarrow> dd < a | _ \<Rightarrow> False)"

definition fresh_days :: "store \<Rightarrow> nat \<Rightarrow> store \<Rightarrow> bool" where
  "fresh_days h0 dd h =
     (framed h0 h \<and> length h0 \<le> dd
      \<and> (case cell_at h dd of
            Some (Object ps) \<Rightarrow> list_all (\<lambda>p. refers_above dd (snd p)) ps
          | _ \<Rightarrow> False))"

definition keeps :: "(store \<Rightarrow> bool) \<Rightarrow> 'a effect \<Rightarrow> ('a \<Rightarrow> bool) \<Rightarrow> bool" where
  "keeps J m Q =
     (\<forall>h. J h \<longrightarrow> J (fst (m h)) \<and> (case snd (m h) of Inl e \<Rightarrow> True | Inr x \<Rightarrow> Q x))"

definition anything :: "'a \<Rightarrow> bool" where
  "anything x = True"

subsection \<open>The timer of the main application\<close>

text \<open>
  A reading of the system clock: \<^verbatim>\<open>Date.now()\<close> in milliseconds and
  \<^verbatim>\<open>new Date().toISOString()\<close> taken at the same instant.
\<close>

record clock =
  now :: int
  iso :: string

text \<open>
  \<^verbatim>\<open>Math.round\<close> rounds to the nearest integer, a tie going up; \<^verbatim>\<open>Math.floor\<close> rounds
  down. The quotient of two integers is a rational here, which agrees with the
  floating-point quotient on every millisecond count a clock can give.
\<close>

definition math_round :: "rat \<Rightarrow> int" where
  "math_round q = \<lfloor>q + 1 / 2\<rfloor>"

definition math_floor :: "rat \<Rightarrow> int" where
  "math_floor q = \<lfloor>q\<rfloor>"

text \<open>\<^verbatim>\<open>n - x\<close> where \<^verbatim>\<open>x\<close> is a number or \<^verbatim>\<open>null\<close>: \<^verbatim>\<open>null\<close> counts as 0.\<close>

fun minus_nullable :: "int \<Rightarrow> int option \<Rightarrow> int" where
  "minus_nullable n None = n"
| "minus_nullable n (Some m) = n - m"

text \<open>
  The fields of a \<^verbatim>\<open>GameTimeTracker\<close> that the timer methods read or write.
  \<open>timerStartTime\<close> is \<^verbatim>\<open>this.startTime\<close> (\<^verbatim>\<open>null\<close> until the first start);
  \<open>timerInterval\<close> tells whether the one-second interval is scheduled;
  \<open>gameSelect\<close> is the selected value of the drop-down; \<open>metadataContainer\<close>,
  \<open>alarmSound\<close> and \<open>alarmNotification\<close> are \<open>None\<close> when the page has no such element and
  otherwise tell whether the form is displayed, the sound is playing, the notification is
  displayed; \<open>localStorage\<close> is the \<^verbatim>\<open>gameSessions\<close> entry of the browser's local storage.
  \<open>alarmsRaised\<close> is not a field of the class: it counts how often the body of
  \<^verbatim>\<open>triggerAlarm\<close> has run.
\<close>

record tracker =
  gameSelect :: string
  metadataContainer :: "bool option"
  timerInterval :: bool
  timerStartTime :: "int option"
  elapsedTime :: int
  isRunning :: bool
  sessions :: "session list"
  currentSession :: "session option"
  alarmSound :: "bool option"
  alarmNotification :: "bool option"
  alarmTriggered :: bool
  hourlyAlarmThreshold :: int
  startButton_disabled :: bool
  endButton_disabled :: bool
  gameSelect_disabled :: bool
  localStorage :: "session list"
  alarmsRaised :: nat

text \<open>\<^verbatim>\<open>startTimer()\<close>.\<close>

definition startTimer :: "clock \<Rightarrow> tracker \<Rightarrow> tracker" where
  "startTimer c s =
     (if isRunning s then s
      else
        s\<lparr>isRunning := True,
          timerStartTime := Some (now c - elapsedTime s),
          currentSession :=
            Some \<lparr>game = gameSelect s, date = before_T (iso c), startTime = iso c,
                  endTime = None, durationMinutes = Some 0,
                  metadata = Some empty_metadata\<rparr>,
          startButton_disabled := True,
          endButton_disabled := False,
          gameSelect_disabled := True,
          alarmTriggered := False,
          timerInterval := True\<rparr>)"

text \<open>
  \<^verbatim>\<open>showMetadataForm()\<close> and \<^verbatim>\<open>endTimer()\<close> call each other when the page has no metadata
  container, and nothing on that path ends the recursion: the engine stops it with a
  RangeError when the call stack is full. The first argument is the number of frames left.
\<close>

fun showMetadataForm :: "nat \<Rightarrow> clock \<Rightarrow> tracker \<Rightarrow> error + tracker"
  and endTimer :: "nat \<Rightarrow> clock \<Rightarrow> tracker \<Rightarrow> error + tracker" where
  "showMetadataForm 0 c s = Inl RangeError"
| "showMetadataForm (Suc frames) c s =
     (if \<not> isRunning s then Inr s
      else
        (case currentSession s of
           None \<Rightarrow> Inl TypeError
         | Some cs \<Rightarrow>
             (let s1 = s\<lparr>timerInterval := False,
                         currentSession :=
                           Some (cs\<lparr>endTime := Some (iso c),
                                    durationMinutes :=
                                      Some (math_round (of_int (elapsedTime s) / 60000))\<rparr>)\<rparr>
              in case metadataContainer s1 of
                   Some shown \<Rightarrow> Inr (s1\<lparr>metadataContainer := Some True\<rparr>)
                 | None \<Rightarrow> endTimer frames c s1)))"
| "endTimer 0 c s = Inl RangeError"
| "endTimer (Suc frames) c s = showMetadataForm frames c s"

text \<open>
  \<^verbatim>\<open>completeSession()\<close>. With no current session the method appends \<^verbatim>\<open>null\<close> and the
  refresh of today's statistics that ends it fails on that entry with a TypeError.
  The array written to local storage is the one posted to the save endpoint.
\<close>

definition completeSession :: "tracker \<Rightarrow> error + tracker" where
  "completeSession s =
     (case currentSession s of
        None \<Rightarrow> Inl TypeError
      | Some cs \<Rightarrow>
          Inr (s\<lparr>sessions := sessions s @ [cs],
                 localStorage := sessions s @ [cs],
                 startButton_disabled := False,
                 endButton_disabled := True,
                 gameSelect_disabled := False,
                 elapsedTime := 0,
                 isRunning := False\<rparr>))"

text \<open>
  The three ways out of the metadata form. Each hides the container (a TypeError when the
  page has none) and completes the session. The counts are the values of
  \<^verbatim>\<open>parseInt(input.value)\<close>, \<open>None\<close> for \<^verbatim>\<open>NaN\<close>.
\<close>

definition hide_metadata_form :: "tracker \<Rightarrow> error + tracker" where
  "hide_metadata_form s =
     (case metadataContainer s of
        None \<Rightarrow> Inl TypeError
      | Some shown \<Rightarrow> Inr (s\<lparr>metadataContainer := Some False\<rparr>))"

definition set_metadata :: "metadata \<Rightarrow> tracker \<Rightarrow> error + tracker" where
  "set_metadata m s =
     (case currentSession s of
        None \<Rightarrow> Inl TypeError
      | Some cs \<Rightarrow> Inr (s\<lparr>currentSession := Some (cs\<lparr>metadata := Some m\<rparr>)\<rparr>))"

definition saveValorantMetadata ::
  "int option \<Rightarrow> int option \<Rightarrow> int option \<Rightarrow> int option \<Rightarrow> tracker \<Rightarrow> error + tracker" where
  "saveValorantMetadata deathmatch competitive unrated spikeRush s =
     (case set_metadata
             \<lparr>matchTypes = Some [(''deathmatch'', or_zero deathmatch),
                                  (''competitive'', or_zero competitive),
                                  (''unrated'', or_zero unrated),
                                  (''spikeRush'', or_zero spikeRush)],
              aimType = None\<rparr> s of
        Inl e \<Rightarrow> Inl e
      | Inr s1 \<Rightarrow>
          (case hide_metadata_form s1 of Inl e \<Rightarrow> Inl e | Inr s2 \<Rightarrow> completeSession s2))"

definition saveKovaaksMetadata :: "string \<Rightarrow> tracker \<Rightarrow> error + tracker" where
  "saveKovaaksMetadata selected s =
     (case set_metadata \<lparr>matchTypes = None, aimType = Some selected\<rparr> s of
        Inl e \<Rightarrow> Inl e
      | Inr s1 \<Rightarrow>
          (case hide_metadata_form s1 of Inl e \<Rightarrow> Inl e | Inr s2 \<Rightarrow> completeSession s2))"

definition cancelMetadata :: "tracker \<Rightarrow> error + tracker" where
  "cancelMetadata s =
     (case hide_metadata_form s of Inl e \<Rightarrow> Inl e | Inr s1 \<Rightarrow> completeSession s1)"

text \<open>\<^verbatim>\<open>triggerAlarm()\<close> and \<^verbatim>\<open>dismissAlarm()\<close>.\<close>

definition triggerAlarm :: "tracker \<Rightarrow> tracker" where
  "triggerAlarm s =
     (if alarmTriggered s then s
      else
        s\<lparr>alarmTriggered := True,
          alarmSound := map_option (\<lambda>playing. True) (alarmSound s),
          alarmNotification := map_option (\<lambda>shown. True) (alarmNotification s),
          alarmsRaised := Suc (alarmsRaised s)\<rparr>)"

definition dismissAlarm :: "tracker \<Rightarrow> tracker" where
  "dismissAlarm s =
     s\<lparr>alarmSound := map_option (\<lambda>playing. False) (alarmSound s),
       alarmNotification := map_option (\<lambda>shown. False) (alarmNotification s)\<rparr>"

text \<open>
  \<^verbatim>\<open>checkKovaaksTimeThreshold()\<close>: the minutes of today's completed Kovaaks sessions plus
  the whole minutes of the session in progress, compared with the threshold.
\<close>

definition todayKovaaksMinutes :: "clock \<Rightarrow> tracker \<Rightarrow> int" where
  "todayKovaaksMinutes c s =
     fold (\<lambda>session total.
             if game session = ''kovaaks'' \<and> date session = before_T (iso c)
             then total + or_zero (durationMinutes session) else total)
          (sessions s) 0
     + math_floor (of_int (elapsedTime s) / 60000)"

definition checkKovaaksTimeThreshold :: "clock \<Rightarrow> tracker \<Rightarrow> tracker" where
  "checkKovaaksTimeThreshold c s =
     (if todayKovaaksMinutes c s \<ge> hourlyAlarmThreshold s then triggerAlarm s else s)"

text \<open>\<^verbatim>\<open>updateTimer()\<close>, the callback of the interval.\<close>

definition updateTimer :: "clock \<Rightarrow> tracker \<Rightarrow> tracker" where
  "updateTimer c s =
     (let s1 = s\<lparr>elapsedTime := minus_nullable (now c) (timerStartTime s)\<rparr> in
      case currentSession s1 of
        None \<Rightarrow> s1
      | Some cs \<Rightarrow>
          (if game cs = ''kovaaks'' \<and> \<not> alarmTriggered s1
           then checkKovaaksTimeThreshold c s1 else s1))"

text \<open>
  What the page does with one event: a click on a button, or the interval coming due
  (which calls \<^verbatim>\<open>updateTimer\<close> only while the interval is scheduled). A sequence of events
  stops at the first exception.
\<close>

datatype event =
    ClickStart clock
  | ClickEnd clock
  | IntervalDue clock
  | ClickSaveValorant "int option" "int option" "int option" "int option"
  | ClickSaveKovaaks string
  | ClickCancel
  | ClickDismiss

fun handle :: "nat \<Rightarrow> event \<Rightarrow> tracker \<Rightarrow> error + tracker" where
  "handle frames (ClickStart c) s = Inr (startTimer c s)"
| "handle frames (ClickEnd c) s = showMetadataForm frames c s"
| "handle frames (IntervalDue c) s = Inr (if timerInterval s then updateTimer c s else s)"
| "handle frames (ClickSaveValorant d c u r) s = saveValorantMetadata d c u r s"
| "handle frames (ClickSaveKovaaks a) s = saveKovaaksMetadata a s"
| "handle frames ClickCancel s = cancelMetadata s"
| "handle frames ClickDismiss s = Inr (dismissAlarm s)"

fun run :: "nat \<Rightarrow> event list \<Rightarrow> tracker \<Rightarrow> error + tracker" where
  "run frames [] s = Inr s"
| "run frames (e # es) s =
     (case handle frames e s of Inl err \<Rightarrow> Inl err | Inr s' \<Rightarrow> run frames es s')"

text \<open>The tracker as its constructor leaves it, given the cached sessions.\<close>

definition new_tracker :: "string \<Rightarrow> session list \<Rightarrow> tracker" where
  "new_tracker selected cached =
     \<lparr>gameSelect = selected, metadataContainer = Some False, timerInterval = False,
      timerStartTime = None, elapsedTime = 0, isRunning = False, sessions = cached,
      currentSession = None, alarmSound = Some False, alarmNotification = Some False,
      alarmTriggered = False, hourlyAlarmThreshold = 60, startButton_disabled = False,
      endButton_disabled = True, gameSelect_disabled = False, localStorage = cached,
      alarmsRaised = 0\<rparr>"

definition clock_at :: "int \<Rightarrow> clock" where
  "clock_at ms = \<lparr>now = ms, iso = ''2024-01-01T10:00:00.000Z''\<rparr>"

text \<open>
  What a sequence of events leaves behind: the duration of the current session, and the
  durations of the records in local storage (nothing when the sequence ended in an
  exception).
\<close>

definition current_duration :: "error + tracker \<Rightarrow> int option" where
  "current_duration r =
     (case r of
        Inl e \<Rightarrow> None
      | Inr s \<Rightarrow> (case currentSession s of None \<Rightarrow> None | Some cs \<Rightarrow> durationMinutes cs))"

definition stored_durations :: "error + tracker \<Rightarrow> int option list" where
  "stored_durations r = (case r of Inl e \<Rightarrow> [] | Inr s \<Rightarrow> map durationMinutes (localStorage s))"

text \<open>The three events that leave the metadata form.\<close>

fun leaves_form :: "event \<Rightarrow> bool" where
  "leaves_form (ClickSaveValorant d c u r) = True"
| "leaves_form (ClickSaveKovaaks a) = True"
| "leaves_form ClickCancel = True"
| "leaves_form e = False"

text \<open>The interval coming due on every whole second, \<open>n\<close> times from the start at 0.\<close>

fun ticks_every_second :: "nat \<Rightarrow> event list" where
  "ticks_every_second 0 = []"
| "ticks_every_second (Suc n) = ticks_every_second n @ [IntervalDue (clock_at (1000 * int (Suc n)))]"

text \<open>A tracker on which a Kovaaks session was started at time 0, with an empty history.\<close>

definition running_sample :: tracker where
  "running_sample = startTimer (clock_at 0) (new_tracker ''kovaaks'' [])"

definition running_sample_session :: session where
  "running_sample_session =
     \<lparr>game = ''kovaaks'', date = ''2024-01-01'', startTime = ''2024-01-01T10:00:00.000Z'',
      endTime = None, durationMinutes = Some 0, metadata = Some empty_metadata\<rparr>"

text \<open>
  The test that a tick at clock reading \<open>c\<close> makes: today's Kovaaks minutes, with the
  session in progress measured at \<open>c\<close>, against the threshold.
\<close>

definition threshold_reached_at :: "clock \<Rightarrow> tracker \<Rightarrow> bool" where
  "threshold_reached_at c s =
     (todayKovaaksMinutes c (s\<lparr>elapsedTime := minus_nullable (now c) (timerStartTime s)\<rparr>)
        \<ge> hourlyAlarmThreshold s)"

text \<open>
  The events that can occur while a session runs and that keep it running: a click on
  Start, the interval, a click on the alarm's dismiss button.
\<close>

fun keeps_running :: "event \<Rightarrow> bool" where
  "keeps_running (ClickStart c) = True"
| "keeps_running (IntervalDue c) = True"
| "keeps_running ClickDismiss = True"
| "keeps_running e = False"

definition some_tick_reaches :: "event list \<Rightarrow> tracker \<Rightarrow> bool" where
  "some_tick_reaches evs s = list_ex (\<lambda>e. case e of IntervalDue c \<Rightarrow> threshold_reached_at c s | _ \<Rightarrow> False) evs"

text \<open>A second Kovaaks session of the day, started at time 0 after one of 45 minutes.\<close>

definition second_session_sample :: tracker where
  "second_session_sample = startTimer (clock_at 0) (new_tracker ''kovaaks'' [kovaaks_sample])"

text \<open>
  A record of the client's collection, as the summary code reads it, and the stored row it
  comes from: the game, the duration and the times as stored, the metadata as the server
  parses it.
\<close>

definition loaded_from :: "json_parse \<Rightarrow> row \<Rightarrow> session \<Rightarrow> bool" where
  "loaded_from parse r s =
     (game s = game r \<and> durationMinutes s = durationMinutes r
      \<and> startTime s = startTime r \<and> endTime s = endTime r
      \<and> metadata s = as_metadata (parse_metadata parse (metadata r)))"

text \<open>
  A store that holds the two sessions of the worked scenario and their array (at address 5),
  and stand-ins for the operations of the runtime that behave as the runtime does on the
  values of this store.
\<close>

definition sample_store :: store where
  "sample_store =
     [Object [(''competitive'', VNumber 2)],
      Object [(''matchTypes'', VRef 0)],
      Object [(''game'', VString ''valorant''), (''date'', VString ''2024-01-01''),
              (''durationMinutes'', VNumber 30), (''metadata'', VRef 1)],
      Object [(''aimType'', VString ''static-clicking'')],
      Object [(''game'', VString ''kovaaks''), (''date'', VString ''2024-01-01''),
              (''durationMinutes'', VNumber 45), (''metadata'', VRef 3)],
      Array [VRef 2, VRef 4]]"

definition own_properties :: "store \<Rightarrow> val \<Rightarrow> (string \<times> val) list" where
  "own_properties h v =
     (case v of
        VRef a \<Rightarrow> (case cell_at h a of Some (Object ps) \<Rightarrow> ps | _ \<Rightarrow> [])
      | _ \<Rightarrow> [])"

definition number_plus :: "val \<Rightarrow> val \<Rightarrow> val" where
  "number_plus a b =
     (case a of
        VNumber x \<Rightarrow> (case b of VNumber y \<Rightarrow> VNumber (x + y) | _ \<Rightarrow> VNaN)
      | _ \<Rightarrow> VNaN)"

definition number_divide :: "val \<Rightarrow> val \<Rightarrow> val" where
  "number_divide a b =
     (case a of
        VNumber x \<Rightarrow> (case b of VNumber y \<Rightarrow> (if y = 0 then VNaN else VNumber (x / y)) | _ \<Rightarrow> VNaN)
      | _ \<Rightarrow> VNaN)"

definition sample_runtime :: runtime where
  "sample_runtime =
     \<lparr>js_plus = (\<lambda>h a b. Inr (number_plus a b)),
      js_divide = (\<lambda>h. number_divide),
      js_key = (\<lambda>h v. Inr (case v of VString s \<Rightarrow> s | _ \<Rightarrow> ''undefined'')),
      js_entries = own_properties,
      js_keys = (\<lambda>h v. map fst (own_properties h v)),
      js_date_iso = (\<lambda>h v. case v of VString s \<Rightarrow> sample_to_iso s | _ \<Rightarrow> Inl RangeError)\<rparr>"














section \<open>Properties\<close>

subsection \<open>The summary loop never throws\<close>

lemma match_types_step_total: "\<exists>vmt'. match_types_step s vmt = Inr vmt'"
  by (cases "metadata s") (auto simp: match_types_step_def split: option.splits)

lemma aim_types_step_total: "\<exists>kat'. aim_types_step s d kat = Inr kat'"
  by (cases "metadata s") (auto simp: aim_types_step_def split: option.splits)

lemma summary_step_total: "\<exists>acc'. summary_step s acc = Inr acc'"
proof -
  obtain vmt where v: "match_types_step s (valorantMatchTypes acc) = Inr vmt"
    using match_types_step_total by blast
  obtain kat where k:
    "aim_types_step s (or_zero (durationMinutes s)) (kovaaksAimTypes acc) = Inr kat"
    using aim_types_step_total by blast
  show ?thesis by (simp add: summary_step_def Let_def v k)
qed

lemma summary_step_time:
  "summary_step s acc = Inr acc' \<Longrightarrow>
     totalTimeMinutes acc' = totalTimeMinutes acc + or_zero (durationMinutes s)"
  by (auto simp: summary_step_def Let_def split: sum.splits)

lemma for_each_summary_total: "\<exists>acc'. for_each summary_step ss acc = Inr acc'"
proof (induction ss arbitrary: acc)
  case Nil
  show ?case by simp
next
  case (Cons s ss)
  obtain a where a: "summary_step s acc = Inr a"
    using summary_step_total by blast
  show ?case using Cons.IH [of a] by (simp add: a)
qed

lemma for_each_summary_time:
  "for_each summary_step ss acc = Inr acc' \<Longrightarrow>
     totalTimeMinutes acc' =
       totalTimeMinutes acc + (\<Sum>s\<leftarrow>ss. or_zero (durationMinutes s))"
proof (induction ss arbitrary: acc)
  case Nil
  then show ?case by simp
next
  case (Cons s ss)
  obtain a where a: "summary_step s acc = Inr a"
    using summary_step_total by blast
  from Cons.prems a have "for_each summary_step ss a = Inr acc'" by simp
  from Cons.IH [OF this] summary_step_time [OF a] show ?case by simp
qed

subsection \<open>Totals of the summary\<close>

text \<open>
  C1. For every session collection \<^verbatim>\<open>generateSummaryStats\<close> returns, and the result has
  \<^verbatim>\<open>totalSessions\<close> equal to the number of records and \<^verbatim>\<open>totalTimeMinutes\<close> equal to
  the sum of \<^verbatim>\<open>durationMinutes\<close> over all records, a missing duration counting as 0; the
  empty collection yields a total of 0.
\<close>

theorem summary_totals:
  "\<exists>st. generateSummaryStats ss = Inr st
      \<and> totalSessions st = length ss
      \<and> totalTimeMinutes st =
          (\<Sum>s\<leftarrow>ss. case durationMinutes s of None \<Rightarrow> 0 | Some n \<Rightarrow> n)
      \<and> (\<exists>st0. generateSummaryStats [] = Inr st0
            \<and> totalSessions st0 = 0 \<and> totalTimeMinutes st0 = 0)"
proof -
  have empty: "\<exists>st0. generateSummaryStats [] = Inr st0
            \<and> totalSessions st0 = 0 \<and> totalTimeMinutes st0 = 0"
    by (simp add: generateSummaryStats_def empty_stats_def)
  show ?thesis
  proof (cases "ss = []")
    case True
    with empty show ?thesis by (simp add: generateSummaryStats_def empty_stats_def)
  next
    case False
    obtain acc where acc: "for_each summary_step ss empty_stats = Inr acc"
      using for_each_summary_total by blast
    have same: "or_zero d = (case d of None \<Rightarrow> 0 | Some n \<Rightarrow> n)" for d
      by (cases d) simp_all
    have "totalTimeMinutes acc = (\<Sum>s\<leftarrow>ss. or_zero (durationMinutes s))"
      using for_each_summary_time [OF acc] by (simp add: empty_stats_def)
    with False acc empty show ?thesis
      by (simp add: generateSummaryStats_def same)
  qed
qed

theorem summary_totals_witness:
  "\<exists>st. generateSummaryStats [valorant_sample, kovaaks_sample] = Inr st
      \<and> totalSessions st = 2 \<and> totalTimeMinutes st = 75"
proof -
  from summary_totals [of "[valorant_sample, kovaaks_sample]"]
  obtain st where "generateSummaryStats [valorant_sample, kovaaks_sample] = Inr st"
    and "totalSessions st = length [valorant_sample, kovaaks_sample]"
    and "totalTimeMinutes st =
          (\<Sum>s\<leftarrow>[valorant_sample, kovaaks_sample].
             case durationMinutes s of None \<Rightarrow> 0 | Some n \<Rightarrow> n)"
    by blast
  then show ?thesis
    by (intro exI [of _ st]) (simp add: valorant_sample_def kovaaks_sample_def)
qed

subsection \<open>Reading and writing properties\<close>

lemma obj_get_obj_set:
  "obj_get (obj_set ob k v) k' = (if k' = k then Some v else obj_get ob k')"
  by (induction ob) auto

lemma keys_obj_set: "set (obj_keys (obj_set ob k v)) = insert k (set (obj_keys ob))"
  by (induction ob) (force simp: obj_keys_def)+

lemma obj_get_None_iff: "obj_get ob k = None \<longleftrightarrow> k \<notin> set (obj_keys ob)"
  by (induction ob) (force simp: obj_keys_def)+

lemma keys_add_count: "set (obj_keys (add_count tally k n)) = insert k (set (obj_keys tally))"
  by (simp add: add_count_def keys_obj_set)

lemma keys_add_entries:
  "set (obj_keys (add_entries tally es)) = set (obj_keys tally) \<union> set (obj_keys es)"
proof (induction es arbitrary: tally)
  case Nil
  show ?case by (simp add: obj_keys_def)
next
  case (Cons e es)
  obtain k n where e: "e = (k, n)" by (cases e)
  have "set (obj_keys (e # es)) = insert k (set (obj_keys es))"
    by (simp add: e obj_keys_def)
  then show ?case by (simp add: e Cons.IH keys_add_count)
qed

subsection \<open>The game breakdown\<close>

lemma summary_step_game:
  "summary_step s acc = Inr acc' \<Longrightarrow>
     gameBreakdown acc' = add_game (gameBreakdown acc) (game s) (or_zero (durationMinutes s))"
  by (auto simp: summary_step_def Let_def split: sum.splits)

lemma add_game_known:
  "obj_get gb g = Some (Num n) \<Longrightarrow>
     obj_get (add_game gb g' d) g = Some (Num (if g' = g then n + d else n))"
  by (cases "g' = g") (simp_all add: add_game_def obj_get_obj_set)

lemma for_each_summary_game:
  "for_each summary_step ss acc = Inr acc' \<Longrightarrow>
   obj_get (gameBreakdown acc) g = Some (Num n) \<Longrightarrow>
     obj_get (gameBreakdown acc') g =
       Some (Num (n + (\<Sum>s\<leftarrow>filter (\<lambda>s. game s = g) ss. or_zero (durationMinutes s))))"
proof (induction ss arbitrary: acc n)
  case Nil
  then show ?case by simp
next
  case (Cons s ss)
  obtain a where a: "summary_step s acc = Inr a"
    using summary_step_total by blast
  from Cons.prems(1) a have rest: "for_each summary_step ss a = Inr acc'" by simp
  have "obj_get (gameBreakdown a) g =
          Some (Num (if game s = g then n + or_zero (durationMinutes s) else n))"
    using add_game_known [OF Cons.prems(2)] by (simp add: summary_step_game [OF a])
  from Cons.IH [OF rest this] show ?case by simp
qed

subsection \<open>The metadata breakdowns\<close>

lemma match_types_step_keys:
  "match_types_step s vmt = Inr vmt' \<Longrightarrow>
     set (obj_keys vmt') =
       set (obj_keys vmt) \<union> (if game s = ''valorant'' then match_labels s else {})"
  by (cases "metadata s")
     (auto simp: match_types_step_def match_labels_def keys_add_entries
           split: option.splits if_splits)

lemma aim_types_step_keys:
  "aim_types_step s d kat = Inr kat' \<Longrightarrow>
     set (obj_keys kat') =
       set (obj_keys kat) \<union> (if game s = ''kovaaks'' then aim_labels s - {[]} else {})"
  by (cases "metadata s")
     (auto simp: aim_types_step_def aim_labels_def keys_add_count truthy_string_def
           split: option.splits if_splits)

lemma summary_step_keys:
  assumes "summary_step s acc = Inr acc'"
  shows "set (obj_keys (valorantMatchTypes acc')) =
           set (obj_keys (valorantMatchTypes acc)) \<union>
             (if game s = ''valorant'' then match_labels s else {})"
    and "set (obj_keys (kovaaksAimTypes acc')) =
           set (obj_keys (kovaaksAimTypes acc)) \<union>
             (if game s = ''kovaaks'' then aim_labels s - {[]} else {})"
proof -
  obtain vmt kat where v: "match_types_step s (valorantMatchTypes acc) = Inr vmt"
    and k: "aim_types_step s (or_zero (durationMinutes s)) (kovaaksAimTypes acc) = Inr kat"
    using match_types_step_total aim_types_step_total by blast
  from assms v k have "valorantMatchTypes acc' = vmt" "kovaaksAimTypes acc' = kat"
    by (auto simp: summary_step_def Let_def)
  with match_types_step_keys [OF v] aim_types_step_keys [OF k]
  show "set (obj_keys (valorantMatchTypes acc')) =
           set (obj_keys (valorantMatchTypes acc)) \<union>
             (if game s = ''valorant'' then match_labels s else {})"
    and "set (obj_keys (kovaaksAimTypes acc')) =
           set (obj_keys (kovaaksAimTypes acc)) \<union>
             (if game s = ''kovaaks'' then aim_labels s - {[]} else {})"
    by simp_all
qed

lemma for_each_summary_keys:
  "for_each summary_step ss acc = Inr acc' \<Longrightarrow>
     set (obj_keys (valorantMatchTypes acc')) =
       set (obj_keys (valorantMatchTypes acc)) \<union>
         (\<Union>s\<in>set (filter (\<lambda>s. game s = ''valorant'') ss). match_labels s)
     \<and> set (obj_keys (kovaaksAimTypes acc')) =
       set (obj_keys (kovaaksAimTypes acc)) \<union>
         (\<Union>s\<in>set (filter (\<lambda>s. game s = ''kovaaks'') ss). aim_labels s - {[]})"
proof (induction ss arbitrary: acc)
  case Nil
  then show ?case by simp
next
  case (Cons s ss)
  obtain a where a: "summary_step s acc = Inr a"
    using summary_step_total by blast
  from Cons.prems a have rest: "for_each summary_step ss a = Inr acc'" by simp
  from Cons.IH [OF rest] summary_step_keys [OF a] show ?case
    by (cases "game s = ''valorant''"; cases "game s = ''kovaaks''") auto
qed

subsection \<open>The result of the summary loop as folds\<close>

lemma match_types_step_tally: "match_types_step s vmt = Inr (tally_matches s vmt)"
  using match_types_step_total [of s vmt] by (auto simp: tally_matches_def)

lemma aim_types_step_tally:
  "aim_types_step s (or_zero (durationMinutes s)) kat = Inr (tally_aims s kat)"
  using aim_types_step_total [of s "or_zero (durationMinutes s)" kat]
  by (auto simp: tally_aims_def)

lemma summary_step_closed:
  "summary_step s acc =
     Inr (acc\<lparr>totalTimeMinutes := totalTimeMinutes acc + or_zero (durationMinutes s),
              gameBreakdown := tally_game s (gameBreakdown acc),
              valorantMatchTypes := tally_matches s (valorantMatchTypes acc),
              kovaaksAimTypes := tally_aims s (kovaaksAimTypes acc)\<rparr>)"
  by (simp add: summary_step_def Let_def match_types_step_tally aim_types_step_tally
        tally_game_def)

lemma for_each_summary_closed:
  "for_each summary_step ss acc =
     Inr (acc\<lparr>totalTimeMinutes :=
                totalTimeMinutes acc + (\<Sum>s\<leftarrow>ss. or_zero (durationMinutes s)),
              gameBreakdown := fold tally_game ss (gameBreakdown acc),
              valorantMatchTypes := fold tally_matches ss (valorantMatchTypes acc),
              kovaaksAimTypes := fold tally_aims ss (kovaaksAimTypes acc)\<rparr>)"
proof (induction ss arbitrary: acc)
  case Nil
  show ?case by simp
next
  case (Cons s ss)
  define a where
    "a = acc\<lparr>totalTimeMinutes := totalTimeMinutes acc + or_zero (durationMinutes s),
              gameBreakdown := tally_game s (gameBreakdown acc),
              valorantMatchTypes := tally_matches s (valorantMatchTypes acc),
              kovaaksAimTypes := tally_aims s (kovaaksAimTypes acc)\<rparr>"
  have "summary_step s acc = Inr a"
    by (simp add: a_def summary_step_closed)
  then have "for_each summary_step (s # ss) acc = for_each summary_step ss a"
    by simp
  then show ?case
    by (simp add: Cons.IH [of a]) (simp add: a_def add.assoc)
qed

lemma generateSummaryStats_closed:
  "generateSummaryStats ss =
     Inr \<lparr>totalSessions = length ss,
          totalTimeMinutes = (\<Sum>s\<leftarrow>ss. or_zero (durationMinutes s)),
          avgSessionMinutes =
            of_int (\<Sum>s\<leftarrow>ss. or_zero (durationMinutes s)) / of_nat (length ss),
          gameBreakdown = fold tally_game ss [(''valorant'', Num 0), (''kovaaks'', Num 0)],
          valorantMatchTypes = fold tally_matches ss [],
          kovaaksAimTypes = fold tally_aims ss []\<rparr>"
  by (cases "ss = []")
     (simp_all add: generateSummaryStats_def for_each_summary_closed empty_stats_def)





subsection \<open>Which keys the breakdowns carry\<close>

lemma obj_keys_Nil: "obj_keys [] = []"
  by (simp add: obj_keys_def)

lemma fold_tally_game_known:
  "obj_get gb g = Some (Num n) \<Longrightarrow>
     obj_get (fold tally_game ss gb) g =
       Some (Num (n + (\<Sum>s\<leftarrow>filter (\<lambda>s. game s = g) ss. or_zero (durationMinutes s))))"
proof (induction ss arbitrary: gb n)
  case Nil
  then show ?case by simp
next
  case (Cons s ss)
  have "obj_get (tally_game s gb) g =
          Some (Num (if game s = g then n + or_zero (durationMinutes s) else n))"
    using add_game_known [OF Cons.prems] by (simp add: tally_game_def)
  from Cons.IH [OF this] show ?case by simp
qed

lemma keys_tally_matches:
  "set (obj_keys (tally_matches s vmt)) =
     set (obj_keys vmt) \<union> (if game s = ''valorant'' then match_labels s else {})"
  using match_types_step_keys [OF match_types_step_tally] .

lemma keys_tally_aims:
  "set (obj_keys (tally_aims s kat)) =
     set (obj_keys kat) \<union> (if game s = ''kovaaks'' then aim_labels s - {[]} else {})"
  using aim_types_step_keys [OF aim_types_step_tally] .

lemma keys_fold_tally_matches:
  "set (obj_keys (fold tally_matches ss vmt)) =
     set (obj_keys vmt) \<union>
       (\<Union>s\<in>set (filter (\<lambda>s. game s = ''valorant'') ss). match_labels s)"
  by (induction ss arbitrary: vmt) (auto simp: keys_tally_matches)

lemma keys_fold_tally_aims:
  "set (obj_keys (fold tally_aims ss kat)) =
     set (obj_keys kat) \<union>
       (\<Union>s\<in>set (filter (\<lambda>s. game s = ''kovaaks'') ss). aim_labels s - {[]})"
  by (induction ss arbitrary: kat) (auto simp: keys_tally_aims)

text \<open>
  C4. For every session collection the \<^verbatim>\<open>gameBreakdown\<close> of the summary has an entry for
  \<^verbatim>\<open>valorant\<close> and one for \<^verbatim>\<open>kovaaks\<close>, each a number that is 0 when no session of that game
  exists, while a label that no session's metadata carries is absent from the match-type and
  from the aim-type breakdown.
\<close>

theorem breakdown_entries:
  "\<exists>st v k. generateSummaryStats ss = Inr st
      \<and> obj_get (gameBreakdown st) ''valorant'' = Some (Num v)
      \<and> obj_get (gameBreakdown st) ''kovaaks'' = Some (Num k)
      \<and> ((\<forall>s \<in> set ss. game s \<noteq> ''valorant'') \<longrightarrow> v = 0)
      \<and> ((\<forall>s \<in> set ss. game s \<noteq> ''kovaaks'') \<longrightarrow> k = 0)
      \<and> (\<forall>l. l \<notin> (\<Union>s\<in>set ss. match_labels s)
            \<longrightarrow> obj_get (valorantMatchTypes st) l = None)
      \<and> (\<forall>l. l \<notin> (\<Union>s\<in>set ss. aim_labels s)
            \<longrightarrow> obj_get (kovaaksAimTypes st) l = None)"
proof -
  let ?gb = "fold tally_game ss [(''valorant'', Num 0), (''kovaaks'', Num 0)]"
  let ?v = "\<Sum>s\<leftarrow>filter (\<lambda>s. game s = ''valorant'') ss. or_zero (durationMinutes s)"
  let ?k = "\<Sum>s\<leftarrow>filter (\<lambda>s. game s = ''kovaaks'') ss. or_zero (durationMinutes s)"
  have v: "obj_get ?gb ''valorant'' = Some (Num ?v)"
    using fold_tally_game_known [of "[(''valorant'', Num 0), (''kovaaks'', Num 0)]" "''valorant''" 0]
    by simp
  have k: "obj_get ?gb ''kovaaks'' = Some (Num ?k)"
    using fold_tally_game_known [of "[(''valorant'', Num 0), (''kovaaks'', Num 0)]" "''kovaaks''" 0]
    by simp
  have v0: "(\<forall>s \<in> set ss. game s \<noteq> ''valorant'') \<longrightarrow> ?v = 0"
    by (simp add: filter_False)
  have k0: "(\<forall>s \<in> set ss. game s \<noteq> ''kovaaks'') \<longrightarrow> ?k = 0"
    by (simp add: filter_False)
  have m: "obj_get (fold tally_matches ss []) l = None"
    if "l \<notin> (\<Union>s\<in>set ss. match_labels s)" for l
    using that by (auto simp: obj_get_None_iff keys_fold_tally_matches obj_keys_Nil)
  have a: "obj_get (fold tally_aims ss []) l = None"
    if "l \<notin> (\<Union>s\<in>set ss. aim_labels s)" for l
    using that by (auto simp: obj_get_None_iff keys_fold_tally_aims obj_keys_Nil)
  show ?thesis
    using v k v0 k0 m a by (simp add: generateSummaryStats_closed)
qed

theorem breakdown_entries_witness:
  "game valorant_sample \<noteq> ''kovaaks''
   \<and> ''deathmatch'' \<notin> match_labels valorant_sample
   \<and> (\<exists>st. generateSummaryStats [valorant_sample] = Inr st
         \<and> obj_get (gameBreakdown st) ''valorant'' = Some (Num 30)
         \<and> obj_get (gameBreakdown st) ''kovaaks'' = Some (Num 0)
         \<and> obj_get (valorantMatchTypes st) ''competitive'' = Some 2
         \<and> obj_get (valorantMatchTypes st) ''deathmatch'' = None)"
proof -
  have g: "\<forall>s \<in> set [valorant_sample]. game s \<noteq> ''kovaaks''"
    by (simp add: valorant_sample_def)
  have l: "''deathmatch'' \<notin> (\<Union>s\<in>set [valorant_sample]. match_labels s)"
    by (simp add: valorant_sample_def match_labels_def obj_keys_def)
  obtain st v k where st: "generateSummaryStats [valorant_sample] = Inr st"
    and "obj_get (gameBreakdown st) ''kovaaks'' = Some (Num k)"
    and "(\<forall>s \<in> set [valorant_sample]. game s \<noteq> ''kovaaks'') \<longrightarrow> k = 0"
    and "\<forall>l. l \<notin> (\<Union>s\<in>set [valorant_sample]. match_labels s)
            \<longrightarrow> obj_get (valorantMatchTypes st) l = None"
    using breakdown_entries [of "[valorant_sample]"] by blast
  with g l have k: "obj_get (gameBreakdown st) ''kovaaks'' = Some (Num 0)"
    and d: "obj_get (valorantMatchTypes st) ''deathmatch'' = None"
    by blast+
  have "generateSummaryStats [valorant_sample] =
          Inr \<lparr>totalSessions = 1, totalTimeMinutes = 30, avgSessionMinutes = 30,
               gameBreakdown = [(''valorant'', Num 30), (''kovaaks'', Num 0)],
               valorantMatchTypes = [(''competitive'', 2)], kovaaksAimTypes = []\<rparr>"
    by (simp add: generateSummaryStats_def empty_stats_def summary_step_def
          match_types_step_def aim_types_step_def add_game_def add_count_def
          valorant_sample_def)
  with st k d g l show ?thesis by auto
qed

subsection \<open>Absent and unparsable metadata\<close>







subsection \<open>Rounding\<close>

lemma math_round_div: "math_round (of_int x / 60000) = (x + 30000) div 60000"
proof -
  have "(of_int x / 60000 + 1 / 2 :: rat) = of_int (x + 30000) / of_int 60000"
    by (simp add: field_simps)
  then show ?thesis
    unfolding math_round_def by (simp only: floor_divide_of_int_eq)
qed

lemma math_floor_div: "math_floor (of_int x / 60000) = x div 60000"
proof -
  have "(of_int x / 60000 :: rat) = of_int x / of_int 60000" by simp
  then show ?thesis
    unfolding math_floor_def by (simp only: floor_divide_of_int_eq)
qed

subsection \<open>Starting and stopping\<close>

lemma showMetadataForm_idle: "\<not> isRunning s \<Longrightarrow> showMetadataForm (Suc frames) c s = Inr s"
  by simp

lemma showMetadataForm_running:
  assumes "isRunning s" and "currentSession s = Some cs" and "metadataContainer s = Some shown"
  shows "showMetadataForm (Suc frames) c s =
     Inr (s\<lparr>timerInterval := False,
            currentSession :=
              Some (cs\<lparr>endTime := Some (iso c),
                       durationMinutes := Some ((elapsedTime s + 30000) div 60000)\<rparr>),
            metadataContainer := Some True\<rparr>)"
  using assms by (simp add: Let_def math_round_div)

text \<open>
  C7. A call of \<^verbatim>\<open>startTimer\<close> while the timer is running returns the tracker as it was:
  still running, with the same start time and the same current session. A call of
  \<^verbatim>\<open>showMetadataForm\<close> (the End button), or of \<^verbatim>\<open>endTimer\<close>, while the timer is idle
  returns the tracker as it was. Neither raises an exception.
\<close>

theorem start_running_stop_idle_noop:
  "(isRunning s \<longrightarrow> startTimer c s = s \<and> handle frames (ClickStart c) s = Inr s)
   \<and> (\<not> isRunning s \<longrightarrow>
        showMetadataForm (Suc frames) c s = Inr s
        \<and> endTimer (Suc (Suc frames)) c s = Inr s
        \<and> handle (Suc frames) (ClickEnd c) s = Inr s)"
  by (simp add: startTimer_def)

theorem start_running_stop_idle_noop_witness:
  "isRunning (startTimer (clock_at 1000) (new_tracker ''valorant'' []))
   \<and> startTimer (clock_at 5000) (startTimer (clock_at 1000) (new_tracker ''valorant'' []))
       = startTimer (clock_at 1000) (new_tracker ''valorant'' [])
   \<and> timerStartTime
        (startTimer (clock_at 5000) (startTimer (clock_at 1000) (new_tracker ''valorant'' [])))
       = Some 1000
   \<and> \<not> isRunning (new_tracker ''valorant'' [])
   \<and> showMetadataForm (Suc 0) (clock_at 1000) (new_tracker ''valorant'' [])
       = Inr (new_tracker ''valorant'' [])"
proof -
  have r: "isRunning (startTimer (clock_at 1000) (new_tracker ''valorant'' []))"
    by (simp add: startTimer_def new_tracker_def)
  have t: "timerStartTime (startTimer (clock_at 1000) (new_tracker ''valorant'' [])) = Some 1000"
    by (simp add: startTimer_def new_tracker_def clock_at_def)
  have i: "\<not> isRunning (new_tracker ''valorant'' [])"
    by (simp add: new_tracker_def)
  from start_running_stop_idle_noop
         [of "startTimer (clock_at 1000) (new_tracker ''valorant'' [])" "clock_at 5000" 0]
       start_running_stop_idle_noop [of "new_tracker ''valorant'' []" "clock_at 1000" 0]
       r t i
  show ?thesis by simp
qed

subsection \<open>What a tick leaves alone\<close>

lemma triggerAlarm_frame:
  "isRunning (triggerAlarm s) = isRunning s"
  "currentSession (triggerAlarm s) = currentSession s"
  "metadataContainer (triggerAlarm s) = metadataContainer s"
  "elapsedTime (triggerAlarm s) = elapsedTime s"
  "sessions (triggerAlarm s) = sessions s"
  "timerStartTime (triggerAlarm s) = timerStartTime s"
  "timerInterval (triggerAlarm s) = timerInterval s"
  "hourlyAlarmThreshold (triggerAlarm s) = hourlyAlarmThreshold s"
  by (simp_all add: triggerAlarm_def)

lemma checkKovaaksTimeThreshold_frame:
  "isRunning (checkKovaaksTimeThreshold c s) = isRunning s"
  "currentSession (checkKovaaksTimeThreshold c s) = currentSession s"
  "metadataContainer (checkKovaaksTimeThreshold c s) = metadataContainer s"
  "elapsedTime (checkKovaaksTimeThreshold c s) = elapsedTime s"
  "sessions (checkKovaaksTimeThreshold c s) = sessions s"
  "timerStartTime (checkKovaaksTimeThreshold c s) = timerStartTime s"
  "timerInterval (checkKovaaksTimeThreshold c s) = timerInterval s"
  "hourlyAlarmThreshold (checkKovaaksTimeThreshold c s) = hourlyAlarmThreshold s"
  by (simp_all add: checkKovaaksTimeThreshold_def triggerAlarm_frame)

lemma updateTimer_frame:
  "isRunning (updateTimer c s) = isRunning s"
  "currentSession (updateTimer c s) = currentSession s"
  "metadataContainer (updateTimer c s) = metadataContainer s"
  "elapsedTime (updateTimer c s) = minus_nullable (now c) (timerStartTime s)"
  "sessions (updateTimer c s) = sessions s"
  "timerStartTime (updateTimer c s) = timerStartTime s"
  "timerInterval (updateTimer c s) = timerInterval s"
  "hourlyAlarmThreshold (updateTimer c s) = hourlyAlarmThreshold s"
  by (simp_all add: updateTimer_def checkKovaaksTimeThreshold_frame Let_def
        split: option.splits)

lemma whole_second_same_minute:
  fixes w :: int
  shows "(1000 * (w div 1000) + 30000) div 60000 = (w + 30000) div 60000"
proof -
  have split: "a div 60000 = (a div 1000) div 60" for a :: int
    using zdiv_zmult2_eq [of 60 a 1000] by simp
  have l: "(1000 * (w div 1000) + 30000) div 1000 = w div 1000 + 30"
    by simp
  have r: "(w + 30000) div 1000 = w div 1000 + 30"
    by simp
  show ?thesis by (simp only: split l r)
qed

subsection \<open>The duration computed at the stop\<close>

lemma stop_duration:
  assumes "isRunning s" and "currentSession s = Some cs" and "metadataContainer s = Some shown"
  shows "current_duration (showMetadataForm (Suc frames) c s)
       = Some ((elapsedTime s + 30000) div 60000)"
  by (subst showMetadataForm_running [OF assms]) (simp add: current_duration_def)

lemma tick_stop_duration:
  assumes "isRunning s" and "currentSession s = Some cs" and "metadataContainer s = Some shown"
    and "timerInterval s" and "timerStartTime s = Some t0"
  shows "current_duration (run (Suc frames) [IntervalDue c1, ClickEnd c2] s)
       = Some ((now c1 - t0 + 30000) div 60000)"
proof -
  have "run (Suc frames) [IntervalDue c1, ClickEnd c2] s
          = showMetadataForm (Suc frames) c2 (updateTimer c1 s)"
    using assms(4) by (simp split: sum.splits)
  moreover have "current_duration (showMetadataForm (Suc frames) c2 (updateTimer c1 s))
       = Some ((elapsedTime (updateTimer c1 s) + 30000) div 60000)"
    by (rule stop_duration [where cs = cs and shown = shown])
       (simp_all add: updateTimer_frame assms)
  ultimately show ?thesis
    by (simp add: updateTimer_frame assms(5))
qed

text \<open>
  C5, as the code has it. For every running session, on a page that has the metadata
  container, \<^verbatim>\<open>showMetadataForm\<close> sets \<^verbatim>\<open>durationMinutes\<close> to \<^verbatim>\<open>Math.round(elapsedTime / 60000)\<close>, half a minute rounding up,
  where \<^verbatim>\<open>elapsedTime\<close> is the field of the tracker: the time from the start to the most
  recent tick of the interval, not to the stop (a tick at clock \<open>c1\<close> followed by a stop at
  clock \<open>c2\<close> stores the rounded minutes up to \<open>c1\<close>). When that tick fell on the last
  whole second before the stop the result is \<^verbatim>\<open>Math.round((stop - start) / 60000)\<close>, and a
  stop 90,500 ms after the start then gives 2.
\<close>

theorem stop_rounds_elapsed_of_last_tick:
  "isRunning s \<and> currentSession s = Some cs \<and> metadataContainer s = Some shown \<longrightarrow>
     current_duration (showMetadataForm (Suc frames) c s)
       = Some (math_round (of_int (elapsedTime s) / 60000))
     \<and> math_round (of_int (elapsedTime s) / 60000) = (elapsedTime s + 30000) div 60000
     \<and> (elapsedTime s = 60000 * k + 30000 \<longrightarrow>
          current_duration (showMetadataForm (Suc frames) c s) = Some (k + 1))
     \<and> (timerInterval s \<and> timerStartTime s = Some t0 \<longrightarrow>
          current_duration (run (Suc frames) [IntervalDue c1, ClickEnd c2] s)
            = Some (math_round (of_int (now c1 - t0) / 60000)))
     \<and> (timerInterval s \<and> timerStartTime s = Some t0
          \<and> now c1 - t0 = 1000 * ((now c2 - t0) div 1000) \<longrightarrow>
          current_duration (run (Suc frames) [IntervalDue c1, ClickEnd c2] s)
            = Some (math_round (of_int (now c2 - t0) / 60000)))
     \<and> (timerInterval s \<and> timerStartTime s = Some t0
          \<and> now c1 - t0 = 90000 \<and> now c2 - t0 = 90500 \<longrightarrow>
          current_duration (run (Suc frames) [IntervalDue c1, ClickEnd c2] s) = Some 2)"
proof (intro impI)
  assume a: "isRunning s \<and> currentSession s = Some cs \<and> metadataContainer s = Some shown"
  then have r: "isRunning s" and cs: "currentSession s = Some cs"
    and mc: "metadataContainer s = Some shown"
    by simp_all
  note stop = stop_duration [OF r cs mc, of frames c]
  have tie: "current_duration (showMetadataForm (Suc frames) c s) = Some (k + 1)"
    if e: "elapsedTime s = 60000 * k + 30000"
  proof -
    have "(60000 * k + 30000 + 30000) div 60000 = k + 1" by simp
    with stop e show ?thesis by (simp only:)
  qed
  have last_tick: "current_duration (run (Suc frames) [IntervalDue c1, ClickEnd c2] s)
            = Some (math_round (of_int (now c1 - t0) / 60000))"
    if h: "timerInterval s \<and> timerStartTime s = Some t0"
  proof -
    from h have ti: "timerInterval s" and st: "timerStartTime s = Some t0"
      by blast+
    from tick_stop_duration [OF r cs mc ti st, of frames c1 c2] show ?thesis
      by (simp only: math_round_div)
  qed
  have punctual: "current_duration (run (Suc frames) [IntervalDue c1, ClickEnd c2] s)
            = Some (math_round (of_int (now c2 - t0) / 60000))"
    if h: "timerInterval s \<and> timerStartTime s = Some t0
          \<and> now c1 - t0 = 1000 * ((now c2 - t0) div 1000)"
  proof -
    from h have ti: "timerInterval s" and st: "timerStartTime s = Some t0"
      and e: "now c1 - t0 = 1000 * ((now c2 - t0) div 1000)"
      by blast+
    have "(now c1 - t0 + 30000) div 60000 = (now c2 - t0 + 30000) div 60000"
      by (simp only: e whole_second_same_minute)
    with tick_stop_duration [OF r cs mc ti st, of frames c1 c2] show ?thesis
      by (simp only: math_round_div)
  qed
  have scenario: "current_duration (run (Suc frames) [IntervalDue c1, ClickEnd c2] s) = Some 2"
    if h: "timerInterval s \<and> timerStartTime s = Some t0
          \<and> now c1 - t0 = 90000 \<and> now c2 - t0 = 90500"
  proof -
    from h have ti: "timerInterval s" and st: "timerStartTime s = Some t0"
      and e: "now c1 - t0 = 90000"
      by blast+
    have "(90000 + 30000) div 60000 = (2 :: int)" by simp
    with tick_stop_duration [OF r cs mc ti st, of frames c1 c2] e show ?thesis
      by (simp only:)
  qed
  show "current_duration (showMetadataForm (Suc frames) c s)
       = Some (math_round (of_int (elapsedTime s) / 60000))
     \<and> math_round (of_int (elapsedTime s) / 60000) = (elapsedTime s + 30000) div 60000
     \<and> (elapsedTime s = 60000 * k + 30000 \<longrightarrow>
          current_duration (showMetadataForm (Suc frames) c s) = Some (k + 1))
     \<and> (timerInterval s \<and> timerStartTime s = Some t0 \<longrightarrow>
          current_duration (run (Suc frames) [IntervalDue c1, ClickEnd c2] s)
            = Some (math_round (of_int (now c1 - t0) / 60000)))
     \<and> (timerInterval s \<and> timerStartTime s = Some t0
          \<and> now c1 - t0 = 1000 * ((now c2 - t0) div 1000) \<longrightarrow>
          current_duration (run (Suc frames) [IntervalDue c1, ClickEnd c2] s)
            = Some (math_round (of_int (now c2 - t0) / 60000)))
     \<and> (timerInterval s \<and> timerStartTime s = Some t0
          \<and> now c1 - t0 = 90000 \<and> now c2 - t0 = 90500 \<longrightarrow>
          current_duration (run (Suc frames) [IntervalDue c1, ClickEnd c2] s) = Some 2)"
  proof (intro conjI impI)
    show "current_duration (showMetadataForm (Suc frames) c s)
       = Some (math_round (of_int (elapsedTime s) / 60000))"
      by (simp only: stop math_round_div)
    show "math_round (of_int (elapsedTime s) / 60000) = (elapsedTime s + 30000) div 60000"
      by (rule math_round_div)
  next
    assume "elapsedTime s = 60000 * k + 30000"
    then show "current_duration (showMetadataForm (Suc frames) c s) = Some (k + 1)"
      by (rule tie)
  next
    assume "timerInterval s \<and> timerStartTime s = Some t0"
    then show "current_duration (run (Suc frames) [IntervalDue c1, ClickEnd c2] s)
            = Some (math_round (of_int (now c1 - t0) / 60000))"
      by (rule last_tick)
  next
    assume "timerInterval s \<and> timerStartTime s = Some t0
          \<and> now c1 - t0 = 1000 * ((now c2 - t0) div 1000)"
    then show "current_duration (run (Suc frames) [IntervalDue c1, ClickEnd c2] s)
            = Some (math_round (of_int (now c2 - t0) / 60000))"
      by (rule punctual)
  next
    assume "timerInterval s \<and> timerStartTime s = Some t0
          \<and> now c1 - t0 = 90000 \<and> now c2 - t0 = 90500"
    then show "current_duration (run (Suc frames) [IntervalDue c1, ClickEnd c2] s) = Some 2"
      by (rule scenario)
  qed
qed

theorem stop_after_90500_counterexample:
  "current_duration
     (run 1 ([ClickStart (clock_at 0)] @ ticks_every_second 89 @ [ClickEnd (clock_at 90500)])
        (new_tracker ''valorant'' [])) = Some 1
   \<and> math_round (of_int (90500 - 0) / 60000) = 2"
  by code_simp

lemma running_sample_facts:
  "isRunning running_sample"
  "currentSession running_sample = Some running_sample_session"
  "metadataContainer running_sample = Some False"
  "timerInterval running_sample"
  "timerStartTime running_sample = Some 0"
  "sessions running_sample = []"
  "hourlyAlarmThreshold running_sample = 60"
  "\<not> alarmTriggered running_sample"
  "alarmsRaised running_sample = 0"
  by (simp_all add: running_sample_def running_sample_session_def startTimer_def
        new_tracker_def clock_at_def before_T_def)

theorem stop_rounds_elapsed_of_last_tick_witness:
  "isRunning running_sample
   \<and> currentSession running_sample = Some running_sample_session
   \<and> metadataContainer running_sample = Some False
   \<and> timerInterval running_sample \<and> timerStartTime running_sample = Some 0
   \<and> now (clock_at 90000) - 0 = 90000 \<and> now (clock_at 90500) - 0 = 90500
   \<and> current_duration
        (run (Suc 0) [IntervalDue (clock_at 90000), ClickEnd (clock_at 90500)] running_sample)
       = Some 2"
proof -
  have n: "now (clock_at 90000) - 0 = 90000" "now (clock_at 90500) - 0 = 90500"
    by (simp_all add: clock_at_def)
  from stop_rounds_elapsed_of_last_tick
         [where s = running_sample and cs = running_sample_session and shown = False
            and frames = 0 and ?t0.0 = 0 and ?c1.0 = "clock_at 90000"
            and ?c2.0 = "clock_at 90500"]
       running_sample_facts n
  show ?thesis by blast
qed

subsection \<open>The duration that is stored\<close>

lemma leave_form:
  assumes "currentSession s = Some cs" and "metadataContainer s = Some shown"
    and "leaves_form e"
  shows "\<exists>s' rec. handle frames e s = Inr s' \<and> sessions s' = sessions s @ [rec]
           \<and> localStorage s' = sessions s' \<and> durationMinutes rec = durationMinutes cs
           \<and> \<not> isRunning s'"
  using assms
  by (cases e)
     (simp_all add: cancelMetadata_def saveKovaaksMetadata_def saveValorantMetadata_def
        set_metadata_def hide_metadata_form_def completeSession_def)

text \<open>
  C6, as the code has it. On a page that has the metadata container, a record that the
  timer stores (the End button, then one of the three ways out of the metadata form)
  always carries a \<^verbatim>\<open>durationMinutes\<close>: the value
  \<^verbatim>\<open>Math.round(elapsedTime / 60000)\<close> for the elapsed time of the last tick. Nothing clamps
  it. It is non-negative exactly when that elapsed time is at least -30000 ms, hence
  whenever the clock has not run backwards.
\<close>

theorem stored_duration_not_clamped:
  "isRunning s \<and> currentSession s = Some cs \<and> metadataContainer s = Some shown
     \<and> leaves_form e \<longrightarrow>
     (\<exists>s' rec. run (Suc frames) [ClickEnd c, e] s = Inr s'
        \<and> sessions s' = sessions s @ [rec] \<and> localStorage s' = sessions s'
        \<and> durationMinutes rec = Some (math_round (of_int (elapsedTime s) / 60000))
        \<and> (0 \<le> math_round (of_int (elapsedTime s) / 60000) \<longleftrightarrow> - 30000 \<le> elapsedTime s)
        \<and> (0 \<le> elapsedTime s \<longrightarrow> 0 \<le> math_round (of_int (elapsedTime s) / 60000)))"
proof (intro impI)
  assume a: "isRunning s \<and> currentSession s = Some cs \<and> metadataContainer s = Some shown
     \<and> leaves_form e"
  then have r: "isRunning s" and cs: "currentSession s = Some cs"
    and mc: "metadataContainer s = Some shown" and e: "leaves_form e"
    by simp_all
  define cs1 where
    "cs1 = cs\<lparr>endTime := Some (iso c),
              durationMinutes := Some ((elapsedTime s + 30000) div 60000)\<rparr>"
  define s1 where
    "s1 = s\<lparr>timerInterval := False, currentSession := Some cs1,
            metadataContainer := Some True\<rparr>"
  have stop: "showMetadataForm (Suc frames) c s = Inr s1"
    unfolding s1_def cs1_def by (rule showMetadataForm_running [OF r cs mc])
  have c1: "currentSession s1 = Some cs1" and m1: "metadataContainer s1 = Some True"
    and ss1: "sessions s1 = sessions s"
    by (simp_all add: s1_def)
  from leave_form [OF c1 m1 e, of "Suc frames"]
  obtain s' rec where l: "handle (Suc frames) e s1 = Inr s'"
    "sessions s' = sessions s1 @ [rec]" "localStorage s' = sessions s'"
    "durationMinutes rec = durationMinutes cs1"
    by blast
  have "handle (Suc frames) (ClickEnd c) s = Inr s1"
    using stop by (simp only: handle.simps)
  then have run: "run (Suc frames) [ClickEnd c, e] s = Inr s'"
    using l(1) by (simp only: run.simps sum.case)
  have "0 \<le> (elapsedTime s + 30000) div 60000 \<longleftrightarrow> 0 \<le> elapsedTime s + 30000"
    by (simp add: pos_imp_zdiv_nonneg_iff)
  also have "\<dots> \<longleftrightarrow> - 30000 \<le> elapsedTime s"
    by linarith
  finally have sign:
    "0 \<le> (elapsedTime s + 30000) div 60000 \<longleftrightarrow> - 30000 \<le> elapsedTime s" .
  have sign': "0 \<le> elapsedTime s \<Longrightarrow> 0 \<le> (elapsedTime s + 30000) div 60000"
    using sign by linarith
  have d: "durationMinutes rec = Some (math_round (of_int (elapsedTime s) / 60000))"
    using l(4) by (simp add: cs1_def math_round_div)
  have app: "sessions s' = sessions s @ [rec]"
    using l(2) ss1 by simp
  show "\<exists>s' rec. run (Suc frames) [ClickEnd c, e] s = Inr s'
        \<and> sessions s' = sessions s @ [rec] \<and> localStorage s' = sessions s'
        \<and> durationMinutes rec = Some (math_round (of_int (elapsedTime s) / 60000))
        \<and> (0 \<le> math_round (of_int (elapsedTime s) / 60000) \<longleftrightarrow> - 30000 \<le> elapsedTime s)
        \<and> (0 \<le> elapsedTime s \<longrightarrow> 0 \<le> math_round (of_int (elapsedTime s) / 60000))"
  proof (intro exI conjI impI)
    show "run (Suc frames) [ClickEnd c, e] s = Inr s'" by (rule run)
    show "sessions s' = sessions s @ [rec]" by (rule app)
    show "localStorage s' = sessions s'" by (rule l(3))
    show "durationMinutes rec = Some (math_round (of_int (elapsedTime s) / 60000))" by (rule d)
    show "0 \<le> math_round (of_int (elapsedTime s) / 60000) \<longleftrightarrow> - 30000 \<le> elapsedTime s"
      by (simp only: math_round_div sign)
  next
    assume "0 \<le> elapsedTime s"
    then show "0 \<le> math_round (of_int (elapsedTime s) / 60000)"
      by (simp only: math_round_div sign')
  qed
qed

theorem clock_set_back_counterexample:
  "stored_durations
     (run 1 [ClickStart (clock_at 1000000), IntervalDue (clock_at 880000),
             ClickEnd (clock_at 880500), ClickCancel]
        (new_tracker ''valorant'' [])) = [Some (- 2)]"
  by code_simp

theorem stored_duration_not_clamped_witness:
  "isRunning running_sample
   \<and> currentSession running_sample = Some running_sample_session
   \<and> metadataContainer running_sample = Some False
   \<and> leaves_form ClickCancel
   \<and> stored_durations (run (Suc 0) [ClickEnd (clock_at 500), ClickCancel] running_sample)
       = [Some 0]"
proof -
  have e: "elapsedTime running_sample = 0"
    by (simp add: running_sample_def startTimer_def new_tracker_def)
  from stored_duration_not_clamped
         [where s = running_sample and cs = running_sample_session and shown = False
            and e = ClickCancel and frames = 0 and c = "clock_at 500"]
       running_sample_facts
  obtain s' rec where "run (Suc 0) [ClickEnd (clock_at 500), ClickCancel] running_sample = Inr s'"
    "sessions s' = [rec]" "localStorage s' = sessions s'"
    "durationMinutes rec = Some (math_round (of_int (elapsedTime running_sample) / 60000))"
    by auto
  then have "stored_durations
      (run (Suc 0) [ClickEnd (clock_at 500), ClickCancel] running_sample) = [Some 0]"
    by (simp only: stored_durations_def e math_round_div sum.case list.map) simp
  with running_sample_facts show ?thesis by (simp only: leaves_form.simps simp_thms)
qed

subsection \<open>The Kovaaks alarm\<close>

lemma tick_alarm:
  assumes "currentSession s = Some cs" and "game cs = ''kovaaks''"
  shows "alarmTriggered (updateTimer c s) = (alarmTriggered s \<or> threshold_reached_at c s)"
    and "alarmsRaised (updateTimer c s) =
           alarmsRaised s + (if \<not> alarmTriggered s \<and> threshold_reached_at c s then 1 else 0)"
  using assms
  by (simp_all add: updateTimer_def checkKovaaksTimeThreshold_def triggerAlarm_def
        threshold_reached_at_def Let_def)

lemma threshold_reached_at_cong:
  assumes "sessions s' = sessions s" and "timerStartTime s' = timerStartTime s"
    and "hourlyAlarmThreshold s' = hourlyAlarmThreshold s"
  shows "threshold_reached_at c s' = threshold_reached_at c s"
  using assms by (simp add: threshold_reached_at_def todayKovaaksMinutes_def)

lemma some_tick_reaches_cong:
  assumes "sessions s' = sessions s" and "timerStartTime s' = timerStartTime s"
    and "hourlyAlarmThreshold s' = hourlyAlarmThreshold s"
  shows "some_tick_reaches evs s' = some_tick_reaches evs s"
proof -
  have "(\<lambda>c. threshold_reached_at c s') = (\<lambda>c. threshold_reached_at c s)"
    by (rule ext) (rule threshold_reached_at_cong [OF assms])
  then show ?thesis
    unfolding some_tick_reaches_def by (simp only:)
qed

lemma dismissAlarm_frame:
  "isRunning (dismissAlarm s) = isRunning s"
  "currentSession (dismissAlarm s) = currentSession s"
  "elapsedTime (dismissAlarm s) = elapsedTime s"
  "sessions (dismissAlarm s) = sessions s"
  "timerStartTime (dismissAlarm s) = timerStartTime s"
  "timerInterval (dismissAlarm s) = timerInterval s"
  "hourlyAlarmThreshold (dismissAlarm s) = hourlyAlarmThreshold s"
  "alarmTriggered (dismissAlarm s) = alarmTriggered s"
  "alarmsRaised (dismissAlarm s) = alarmsRaised s"
  "alarmNotification (dismissAlarm s) = map_option (\<lambda>shown. False) (alarmNotification s)"
  "alarmSound (dismissAlarm s) = map_option (\<lambda>playing. False) (alarmSound s)"
  by (simp_all add: dismissAlarm_def)

lemma keeps_running_step:
  assumes "isRunning s" and "timerInterval s" and "currentSession s = Some cs"
    and "game cs = ''kovaaks''" and "keeps_running e"
  shows "\<exists>s'. handle frames e s = Inr s'
           \<and> isRunning s' \<and> timerInterval s' \<and> currentSession s' = Some cs
           \<and> sessions s' = sessions s \<and> timerStartTime s' = timerStartTime s
           \<and> hourlyAlarmThreshold s' = hourlyAlarmThreshold s
           \<and> (alarmTriggered s' \<longleftrightarrow> alarmTriggered s \<or> some_tick_reaches [e] s)
           \<and> alarmsRaised s' =
               alarmsRaised s + (if \<not> alarmTriggered s \<and> some_tick_reaches [e] s then 1 else 0)"
proof (cases e)
  case (ClickStart c)
  with assms(1) show ?thesis
    by (simp add: startTimer_def assms some_tick_reaches_def)
next
  case (IntervalDue c)
  with assms show ?thesis
    by (simp add: updateTimer_frame tick_alarm [OF assms(3,4)] some_tick_reaches_def)
next
  case ClickDismiss
  with assms show ?thesis
    by (simp add: dismissAlarm_frame some_tick_reaches_def)
qed (use assms(5) in simp_all)

lemma some_tick_reaches_Cons:
  "some_tick_reaches (e # evs) s \<longleftrightarrow> some_tick_reaches [e] s \<or> some_tick_reaches evs s"
  by (simp add: some_tick_reaches_def)

lemma keeps_running_run:
  assumes "isRunning s" and "timerInterval s" and "currentSession s = Some cs"
    and "game cs = ''kovaaks''" and "list_all keeps_running evs"
  shows "\<exists>s'. run frames evs s = Inr s'
           \<and> isRunning s' \<and> timerInterval s' \<and> currentSession s' = Some cs
           \<and> sessions s' = sessions s \<and> timerStartTime s' = timerStartTime s
           \<and> hourlyAlarmThreshold s' = hourlyAlarmThreshold s
           \<and> (alarmTriggered s' \<longleftrightarrow> alarmTriggered s \<or> some_tick_reaches evs s)
           \<and> alarmsRaised s' =
               alarmsRaised s + (if \<not> alarmTriggered s \<and> some_tick_reaches evs s then 1 else 0)"
  using assms
proof (induction evs arbitrary: s)
  case Nil
  then show ?case by (simp add: some_tick_reaches_def)
next
  case (Cons e evs)
  from Cons.prems have e: "keeps_running e" and evs: "list_all keeps_running evs"
    by simp_all
  from keeps_running_step [OF Cons.prems(1-4) e, of frames]
  obtain s1 where s1: "handle frames e s = Inr s1"
    "isRunning s1" "timerInterval s1" "currentSession s1 = Some cs"
    "sessions s1 = sessions s" "timerStartTime s1 = timerStartTime s"
    "hourlyAlarmThreshold s1 = hourlyAlarmThreshold s"
    "alarmTriggered s1 \<longleftrightarrow> alarmTriggered s \<or> some_tick_reaches [e] s"
    "alarmsRaised s1 =
       alarmsRaised s + (if \<not> alarmTriggered s \<and> some_tick_reaches [e] s then 1 else 0)"
    by blast
  from Cons.IH [OF s1(2-4) Cons.prems(4) evs]
  obtain s' where s': "run frames evs s1 = Inr s'"
    "isRunning s'" "timerInterval s'" "currentSession s' = Some cs"
    "sessions s' = sessions s1" "timerStartTime s' = timerStartTime s1"
    "hourlyAlarmThreshold s' = hourlyAlarmThreshold s1"
    "alarmTriggered s' \<longleftrightarrow> alarmTriggered s1 \<or> some_tick_reaches evs s1"
    "alarmsRaised s' =
       alarmsRaised s1 + (if \<not> alarmTriggered s1 \<and> some_tick_reaches evs s1 then 1 else 0)"
    by blast
  have same: "some_tick_reaches evs s1 = some_tick_reaches evs s"
    by (rule some_tick_reaches_cong [OF s1(5-7)])
  have "run frames (e # evs) s = Inr s'"
    using s1(1) s'(1) by simp
  moreover have "alarmTriggered s' \<longleftrightarrow> alarmTriggered s \<or> some_tick_reaches (e # evs) s"
    using s'(8) s1(8) same some_tick_reaches_Cons [of e evs s] by blast
  moreover have "alarmsRaised s' =
       alarmsRaised s + (if \<not> alarmTriggered s \<and> some_tick_reaches (e # evs) s then 1 else 0)"
    using s'(8,9) s1(8,9) same some_tick_reaches_Cons [of e evs s] by auto
  ultimately show ?case
    using s'(2-4) s'(5-7) s1(5-7) by simp
qed

lemma fold_cond_sum:
  "fold (\<lambda>x total. if P x then total + f x else total) xs (a :: int)
     = a + (\<Sum>x\<leftarrow>filter P xs. f x)"
  by (induction xs arbitrary: a) simp_all

lemma threshold_reached_at_plain:
  assumes "hourlyAlarmThreshold s = 60" and "timerStartTime s = Some t0"
  shows "threshold_reached_at c s \<longleftrightarrow>
     60 \<le> (\<Sum>x\<leftarrow>filter (\<lambda>x. game x = ''kovaaks'' \<and> date x = before_T (iso c)) (sessions s).
              or_zero (durationMinutes x))
           + (now c - t0) div 60000"
  using assms
  by (simp add: threshold_reached_at_def todayKovaaksMinutes_def fold_cond_sum math_floor_div
        del: of_int_diff)

lemma tick_raises:
  assumes "currentSession s = Some cs" and "game cs = ''kovaaks''" and "\<not> alarmTriggered s"
    and "threshold_reached_at c s"
  shows "alarmNotification (updateTimer c s) = map_option (\<lambda>shown. True) (alarmNotification s)"
    and "alarmSound (updateTimer c s) = map_option (\<lambda>playing. True) (alarmSound s)"
  using assms
  by (simp_all add: updateTimer_def checkKovaaksTimeThreshold_def triggerAlarm_def
        threshold_reached_at_def Let_def)

text \<open>
  C8. Take a running Kovaaks session whose alarm has not fired, as \<^verbatim>\<open>startTimer\<close> leaves
  it, and any sequence of ticks, dismissals and further clicks on Start. The alarm has
  fired after the sequence exactly when some tick of it found today's Kovaaks minutes
  (completed sessions of today plus the whole minutes of the session in progress) at or above
  the threshold of 60, and it has then fired once: since this holds for every prefix, it
  fires at the first such tick and at no later one. The tick that fires it shows the
  notification and starts the sound. Dismissing hides the notification and stops the sound
  and leaves the latch, the interval and the running flag as they were.
\<close>

theorem kovaaks_alarm_latched:
  "(\<not> isRunning s0 \<longrightarrow> \<not> alarmTriggered (startTimer c0 s0))
   \<and> (isRunning s \<and> timerInterval s \<and> currentSession s = Some cs \<and> game cs = ''kovaaks''
       \<and> \<not> alarmTriggered s \<and> list_all keeps_running evs \<longrightarrow>
       (\<exists>s'. run frames evs s = Inr s' \<and> isRunning s' \<and> timerInterval s'
          \<and> (alarmTriggered s' \<longleftrightarrow> some_tick_reaches evs s)
          \<and> alarmsRaised s' = alarmsRaised s + (if some_tick_reaches evs s then 1 else 0)
          \<and> alarmTriggered (dismissAlarm s') = alarmTriggered s'
          \<and> timerInterval (dismissAlarm s') \<and> isRunning (dismissAlarm s')
          \<and> alarmsRaised (dismissAlarm s') = alarmsRaised s'
          \<and> alarmNotification (dismissAlarm s')
               = map_option (\<lambda>shown. False) (alarmNotification s')
          \<and> alarmSound (dismissAlarm s') = map_option (\<lambda>playing. False) (alarmSound s'))
       \<and> (threshold_reached_at c s \<longrightarrow>
            alarmTriggered (updateTimer c s)
            \<and> alarmNotification (updateTimer c s)
                 = map_option (\<lambda>shown. True) (alarmNotification s)
            \<and> alarmSound (updateTimer c s) = map_option (\<lambda>playing. True) (alarmSound s))
       \<and> (hourlyAlarmThreshold s = 60 \<and> timerStartTime s = Some t0 \<longrightarrow>
            (threshold_reached_at c s \<longleftrightarrow>
               60 \<le> (\<Sum>x\<leftarrow>filter (\<lambda>x. game x = ''kovaaks'' \<and> date x = before_T (iso c))
                             (sessions s). or_zero (durationMinutes x))
                     + (now c - t0) div 60000)))"
proof (intro conjI impI)
  assume "\<not> isRunning s0"
  then show "\<not> alarmTriggered (startTimer c0 s0)"
    by (simp add: startTimer_def)
next
  assume a: "isRunning s \<and> timerInterval s \<and> currentSession s = Some cs
       \<and> game cs = ''kovaaks'' \<and> \<not> alarmTriggered s \<and> list_all keeps_running evs"
  then have r: "isRunning s" and ti: "timerInterval s" and cs: "currentSession s = Some cs"
    and g: "game cs = ''kovaaks''" and l: "\<not> alarmTriggered s"
    and evs: "list_all keeps_running evs"
    by simp_all
  from keeps_running_run [OF r ti cs g evs, of frames] l
  obtain s' where s': "run frames evs s = Inr s'" "isRunning s'" "timerInterval s'"
    "alarmTriggered s' \<longleftrightarrow> some_tick_reaches evs s"
    "alarmsRaised s' = alarmsRaised s + (if some_tick_reaches evs s then 1 else 0)"
    by auto
  then show "\<exists>s'. run frames evs s = Inr s' \<and> isRunning s' \<and> timerInterval s'
          \<and> (alarmTriggered s' \<longleftrightarrow> some_tick_reaches evs s)
          \<and> alarmsRaised s' = alarmsRaised s + (if some_tick_reaches evs s then 1 else 0)
          \<and> alarmTriggered (dismissAlarm s') = alarmTriggered s'
          \<and> timerInterval (dismissAlarm s') \<and> isRunning (dismissAlarm s')
          \<and> alarmsRaised (dismissAlarm s') = alarmsRaised s'
          \<and> alarmNotification (dismissAlarm s')
               = map_option (\<lambda>shown. False) (alarmNotification s')
          \<and> alarmSound (dismissAlarm s') = map_option (\<lambda>playing. False) (alarmSound s')"
    by (intro exI [of _ s']) (simp add: dismissAlarm_frame)
next
  assume a: "isRunning s \<and> timerInterval s \<and> currentSession s = Some cs
       \<and> game cs = ''kovaaks'' \<and> \<not> alarmTriggered s \<and> list_all keeps_running evs"
    and t: "threshold_reached_at c s"
  from a have cs: "currentSession s = Some cs" and g: "game cs = ''kovaaks''"
    and l: "\<not> alarmTriggered s"
    by simp_all
  show "alarmTriggered (updateTimer c s)"
    using tick_alarm(1) [OF cs g, of c] t by simp
  show "alarmNotification (updateTimer c s) = map_option (\<lambda>shown. True) (alarmNotification s)"
    by (rule tick_raises(1) [OF cs g l t])
  show "alarmSound (updateTimer c s) = map_option (\<lambda>playing. True) (alarmSound s)"
    by (rule tick_raises(2) [OF cs g l t])
next
  assume "hourlyAlarmThreshold s = 60 \<and> timerStartTime s = Some t0"
  then show "threshold_reached_at c s \<longleftrightarrow>
               60 \<le> (\<Sum>x\<leftarrow>filter (\<lambda>x. game x = ''kovaaks'' \<and> date x = before_T (iso c))
                             (sessions s). or_zero (durationMinutes x))
                     + (now c - t0) div 60000"
    using threshold_reached_at_plain [of s t0 c] by blast
qed

theorem kovaaks_alarm_latched_witness:
  "isRunning second_session_sample \<and> timerInterval second_session_sample
   \<and> currentSession second_session_sample = Some running_sample_session
   \<and> game running_sample_session = ''kovaaks''
   \<and> \<not> alarmTriggered second_session_sample
   \<and> list_all keeps_running
        [IntervalDue (clock_at 899000), IntervalDue (clock_at 900000), ClickDismiss,
         IntervalDue (clock_at 901000)]
   \<and> \<not> threshold_reached_at (clock_at 899000) second_session_sample
   \<and> threshold_reached_at (clock_at 900000) second_session_sample
   \<and> (\<exists>s'. run (Suc 0)
               [IntervalDue (clock_at 899000), IntervalDue (clock_at 900000), ClickDismiss,
                IntervalDue (clock_at 901000)] second_session_sample = Inr s'
         \<and> alarmTriggered s' \<and> alarmsRaised s' = 1 \<and> isRunning s' \<and> timerInterval s')"
proof -
  have f: "isRunning second_session_sample" "timerInterval second_session_sample"
    "currentSession second_session_sample = Some running_sample_session"
    "game running_sample_session = ''kovaaks''"
    "\<not> alarmTriggered second_session_sample"
    "alarmsRaised second_session_sample = 0"
    by (simp_all add: second_session_sample_def running_sample_session_def startTimer_def
          new_tracker_def clock_at_def before_T_def)
  have k: "list_all keeps_running
        [IntervalDue (clock_at 899000), IntervalDue (clock_at 900000), ClickDismiss,
         IntervalDue (clock_at 901000)]"
    by simp
  have before: "\<not> threshold_reached_at (clock_at 899000) second_session_sample"
    by code_simp
  have at: "threshold_reached_at (clock_at 900000) second_session_sample"
    by code_simp
  have some: "some_tick_reaches
        [IntervalDue (clock_at 899000), IntervalDue (clock_at 900000), ClickDismiss,
         IntervalDue (clock_at 901000)] second_session_sample"
    using at by (simp add: some_tick_reaches_def)
  let ?evs = "[IntervalDue (clock_at 899000), IntervalDue (clock_at 900000), ClickDismiss,
               IntervalDue (clock_at 901000)]"
  from kovaaks_alarm_latched
         [where s = second_session_sample and cs = running_sample_session and frames = "Suc 0"
            and evs = ?evs and ?s0.0 = second_session_sample and ?c0.0 = "clock_at 0"
            and c = "clock_at 0" and ?t0.0 = 0]
  have "isRunning second_session_sample \<and> timerInterval second_session_sample
       \<and> currentSession second_session_sample = Some running_sample_session
       \<and> game running_sample_session = ''kovaaks''
       \<and> \<not> alarmTriggered second_session_sample \<and> list_all keeps_running ?evs \<longrightarrow>
       (\<exists>s'. run (Suc 0) ?evs second_session_sample = Inr s' \<and> isRunning s' \<and> timerInterval s'
          \<and> (alarmTriggered s' \<longleftrightarrow> some_tick_reaches ?evs second_session_sample)
          \<and> alarmsRaised s' = alarmsRaised second_session_sample
                + (if some_tick_reaches ?evs second_session_sample then 1 else 0))"
    by blast
  with f k obtain s' where "run (Suc 0) ?evs second_session_sample = Inr s'"
    "isRunning s'" "timerInterval s'"
    "alarmTriggered s' \<longleftrightarrow> some_tick_reaches ?evs second_session_sample"
    "alarmsRaised s' = alarmsRaised second_session_sample
                + (if some_tick_reaches ?evs second_session_sample then 1 else 0)"
    by blast
  with some f(6) have "\<exists>s'. run (Suc 0) ?evs second_session_sample = Inr s'
         \<and> alarmTriggered s' \<and> alarmsRaised s' = 1 \<and> isRunning s' \<and> timerInterval s'"
    by (intro exI [of _ s']) (simp del: run.simps)
  with f k before at show ?thesis by blast
qed

subsection \<open>The daily trend\<close>

theorem daily_trend_counterexample:
  "prepareDailyTrendData sample_to_iso [other_game_sample]
     = Inr \<lparr>labels = [''2024-01-01''], valorant_data = [Some (Num 0)],
            kovaaks_data = [Some (Num 0)]\<rparr>
   \<and> minutes_on_date sample_to_iso [other_game_sample] ''2024-01-01'' = 30
   \<and> prepareDailyTrendData sample_to_iso [bad_date_sample] = Inl RangeError"
  by code_simp

lemma distinct_keys_obj_set:
  "distinct (obj_keys ob) \<Longrightarrow> distinct (obj_keys (obj_set ob k v))"
proof (induction ob)
  case Nil
  show ?case by (simp add: obj_keys_def)
next
  case (Cons p ob)
  obtain k' v' where p: "p = (k', v')" by (cases p)
  from Cons.prems have d: "distinct (obj_keys ob)" and n: "k' \<notin> set (obj_keys ob)"
    by (simp_all add: p obj_keys_def)
  show ?case
  proof (cases "k' = k")
    case True
    with Cons.prems show ?thesis by (simp add: p obj_keys_def)
  next
    case False
    have "k' \<notin> set (obj_keys (obj_set ob k v))"
      using n False by (simp add: keys_obj_set)
    with Cons.IH [OF d] False show ?thesis
      by (simp add: p obj_keys_def)
  qed
qed

lemma set_obj_set: "set (obj_set ob k v) \<subseteq> insert (k, v) (set ob)"
  by (induction ob) (auto split: if_splits)

lemma obj_get_in_set: "obj_get ob k = Some v \<Longrightarrow> (k, v) \<in> set ob"
  by (induction ob) (auto split: if_splits)

lemma both_games_held_obj_set:
  assumes "both_games_held dd" and "holds_number entry ''valorant''"
    and "holds_number entry ''kovaaks''"
  shows "both_games_held (obj_set dd k entry)"
  using assms set_obj_set [of dd k entry]
  by (fastforce simp: both_games_held_def list_all_iff)

lemma both_games_held_get:
  assumes "both_games_held dd" and "obj_get dd d = Some entry"
  shows "holds_number entry ''valorant''" and "holds_number entry ''kovaaks''"
  using assms obj_get_in_set [of dd d entry]
  by (auto simp: both_games_held_def list_all_iff)

lemma holds_number_iff: "holds_number entry g \<longleftrightarrow> (\<exists>n. obj_get entry g = Some (Num n))"
  by (auto simp: holds_number_def split: option.splits jsnum.splits)

lemma holds_number_add_game:
  "holds_number entry g \<Longrightarrow> holds_number (add_game entry g' d) g"
  using add_game_known [of entry g _ g' d] by (auto simp: holds_number_iff)

lemma or_zero_case: "or_zero d = (case d of None \<Rightarrow> 0 | Some n \<Rightarrow> n)"
  by (cases d) simp_all

lemma daily_step_valid:
  assumes "to_iso (date s) = Inr stamp"
  shows "daily_step to_iso s dd =
     Inr (obj_set
            (if obj_get dd (before_T stamp) = None
             then obj_set dd (before_T stamp) [(''valorant'', Num 0), (''kovaaks'', Num 0)]
             else dd)
            (before_T stamp)
            (add_game
               (case obj_get dd (before_T stamp) of
                  None \<Rightarrow> [(''valorant'', Num 0), (''kovaaks'', Num 0)]
                | Some entry \<Rightarrow> entry)
               (game s) (or_zero (durationMinutes s))))"
  by (cases "obj_get dd (before_T stamp)")
     (simp_all add: daily_step_def assms Let_def obj_get_obj_set)

lemma daily_step_effect:
  assumes v: "valid_date to_iso s" and h: "both_games_held dd"
  shows "\<exists>dd'. daily_step to_iso s dd = Inr dd' \<and> both_games_held dd'
           \<and> set (obj_keys dd') = insert (canonical_date to_iso s) (set (obj_keys dd))
           \<and> (distinct (obj_keys dd) \<longrightarrow> distinct (obj_keys dd'))
           \<and> (\<forall>d g. g = ''valorant'' \<or> g = ''kovaaks'' \<longrightarrow>
                 held_minutes dd' d g =
                   held_minutes dd d g
                   + (if canonical_date to_iso s = d \<and> game s = g
                      then or_zero (durationMinutes s) else 0))"
proof -
  from v obtain stamp where st: "to_iso (date s) = Inr stamp"
    by (auto simp: valid_date_def split: sum.splits)
  define k where "k = before_T stamp"
  define init :: "jsnum object" where "init = [(''valorant'', Num 0), (''kovaaks'', Num 0)]"
  define entry where "entry = (case obj_get dd k of None \<Rightarrow> init | Some e \<Rightarrow> e)"
  define dd1 where "dd1 = (if obj_get dd k = None then obj_set dd k init else dd)"
  define entry' where "entry' = add_game entry (game s) (or_zero (durationMinutes s))"
  define dd' where "dd' = obj_set dd1 k entry'"
  have step: "daily_step to_iso s dd = Inr dd'"
    unfolding dd'_def dd1_def entry'_def entry_def k_def init_def
    by (rule daily_step_valid) (rule st)
  have canon: "canonical_date to_iso s = k"
    by (simp add: canonical_date_def st k_def)
  have init_held: "holds_number init ''valorant''" "holds_number init ''kovaaks''"
    by (simp_all add: init_def holds_number_def)
  have entry_held: "holds_number entry ''valorant''" "holds_number entry ''kovaaks''"
    using init_held both_games_held_get [OF h]
    by (auto simp: entry_def split: option.splits)
  have entry'_held: "holds_number entry' ''valorant''" "holds_number entry' ''kovaaks''"
    unfolding entry'_def by (intro holds_number_add_game entry_held)+
  have dd1_held: "both_games_held dd1"
    unfolding dd1_def using h init_held by (simp add: both_games_held_obj_set)
  have held': "both_games_held dd'"
    unfolding dd'_def by (rule both_games_held_obj_set [OF dd1_held entry'_held])
  have keys1: "set (obj_keys dd1) = insert k (set (obj_keys dd))"
    using obj_get_None_iff [of dd k] by (auto simp: dd1_def keys_obj_set)
  have keys': "set (obj_keys dd') = insert k (set (obj_keys dd))"
    by (simp add: dd'_def keys_obj_set keys1)
  have dist: "distinct (obj_keys dd')" if "distinct (obj_keys dd)"
    unfolding dd'_def dd1_def using that by (simp add: distinct_keys_obj_set)
  have get': "obj_get dd' d = (if d = k then Some entry' else obj_get dd d)" for d
    by (simp add: dd'_def dd1_def obj_get_obj_set)
  have minutes: "held_minutes dd' d g =
       held_minutes dd d g + (if k = d \<and> game s = g then or_zero (durationMinutes s) else 0)"
    if g: "g = ''valorant'' \<or> g = ''kovaaks''" for d g
  proof (cases "d = k")
    case False
    then show ?thesis by (auto simp: held_minutes_def get')
  next
    case True
    from g entry_held obtain n where n: "obj_get entry g = Some (Num n)"
      by (auto simp: holds_number_iff)
    have old: "held_minutes dd k g = n"
    proof (cases "obj_get dd k")
      case None
      with n g show ?thesis
        by (auto simp: held_minutes_def entry_def init_def split: if_splits)
    next
      case (Some e)
      with n show ?thesis by (simp add: held_minutes_def entry_def)
    qed
    have "obj_get entry' g =
            Some (Num (if game s = g then n + or_zero (durationMinutes s) else n))"
      unfolding entry'_def by (rule add_game_known [OF n])
    with True old show ?thesis
      by (simp add: held_minutes_def get')
  qed
  show ?thesis
    using step held' keys' dist minutes by (auto simp: canon)
qed

lemma minutes_on_Cons:
  "minutes_on to_iso (s # ss) d g =
     (if canonical_date to_iso s = d \<and> game s = g then or_zero (durationMinutes s) else 0)
     + minutes_on to_iso ss d g"
  by (simp add: minutes_on_def or_zero_case)

lemma daily_loop_effect:
  assumes "list_all (valid_date to_iso) ss" and "both_games_held dd"
  shows "\<exists>dd'. for_each (daily_step to_iso) ss dd = Inr dd' \<and> both_games_held dd'
           \<and> set (obj_keys dd') = set (obj_keys dd) \<union> canonical_date to_iso ` set ss
           \<and> (distinct (obj_keys dd) \<longrightarrow> distinct (obj_keys dd'))
           \<and> (\<forall>d g. g = ''valorant'' \<or> g = ''kovaaks'' \<longrightarrow>
                 held_minutes dd' d g = held_minutes dd d g + minutes_on to_iso ss d g)"
  using assms
proof (induction ss arbitrary: dd)
  case Nil
  then show ?case by (simp add: minutes_on_def)
next
  case (Cons s ss)
  from Cons.prems have v: "valid_date to_iso s" and vs: "list_all (valid_date to_iso) ss"
    by simp_all
  from daily_step_effect [OF v Cons.prems(2)]
  obtain d1 where d1: "daily_step to_iso s dd = Inr d1" "both_games_held d1"
    "set (obj_keys d1) = insert (canonical_date to_iso s) (set (obj_keys dd))"
    "distinct (obj_keys dd) \<longrightarrow> distinct (obj_keys d1)"
    "\<forall>d g. g = ''valorant'' \<or> g = ''kovaaks'' \<longrightarrow>
        held_minutes d1 d g =
          held_minutes dd d g
          + (if canonical_date to_iso s = d \<and> game s = g
             then or_zero (durationMinutes s) else 0)"
    by blast
  from Cons.IH [OF vs d1(2)]
  obtain d2 where d2: "for_each (daily_step to_iso) ss d1 = Inr d2" "both_games_held d2"
    "set (obj_keys d2) = set (obj_keys d1) \<union> canonical_date to_iso ` set ss"
    "distinct (obj_keys d1) \<longrightarrow> distinct (obj_keys d2)"
    "\<forall>d g. g = ''valorant'' \<or> g = ''kovaaks'' \<longrightarrow>
        held_minutes d2 d g = held_minutes d1 d g + minutes_on to_iso ss d g"
    by blast
  have "for_each (daily_step to_iso) (s # ss) dd = Inr d2"
    using d1(1) d2(1) by simp
  moreover have "set (obj_keys d2) = set (obj_keys dd) \<union> canonical_date to_iso ` set (s # ss)"
    using d1(3) d2(3) by auto
  moreover have "held_minutes d2 d g = held_minutes dd d g + minutes_on to_iso (s # ss) d g"
    if g: "g = ''valorant'' \<or> g = ''kovaaks''" for d g
  proof -
    from d1(5) g have a: "held_minutes d1 d g =
          held_minutes dd d g
          + (if canonical_date to_iso s = d \<and> game s = g
             then or_zero (durationMinutes s) else 0)"
      by blast
    from d2(5) g have b: "held_minutes d2 d g = held_minutes d1 d g + minutes_on to_iso ss d g"
      by blast
    show ?thesis by (simp only: a b minutes_on_Cons add.assoc)
  qed
  ultimately show ?case
    using d2(2) d1(4) d2(4) by blast
qed

lemma read_series_held:
  assumes "both_games_held dd" and "set dates \<subseteq> set (obj_keys dd)"
    and "g = ''valorant'' \<or> g = ''kovaaks''"
  shows "read_series g dd dates = Inr (map (\<lambda>d. Some (Num (held_minutes dd d g))) dates)"
  using assms(2)
proof (induction dates)
  case Nil
  show ?case by (simp add: read_series_def)
next
  case (Cons d dates)
  from Cons.prems have "d \<in> set (obj_keys dd)" by simp
  then obtain entry where e: "obj_get dd d = Some entry"
    using obj_get_None_iff [of dd d] by auto
  from both_games_held_get [OF assms(1) e] assms(3)
  obtain n where n: "obj_get entry g = Some (Num n)"
    by (auto simp: holds_number_iff)
  have "held_minutes dd d g = n"
    by (simp add: held_minutes_def e n)
  moreover from Cons have
    "read_series g dd dates = Inr (map (\<lambda>d. Some (Num (held_minutes dd d g))) dates)"
    by simp
  ultimately show ?case
    using e n by (simp add: read_series_def)
qed

lemma known_minutes_split:
  "minutes_of_known to_iso ss d =
     minutes_on to_iso ss d ''valorant'' + minutes_on to_iso ss d ''kovaaks''"
  by (induction ss) (auto simp: minutes_of_known_def minutes_on_def known_game_def)

lemma known_minutes_all:
  "list_all known_game ss \<Longrightarrow> minutes_of_known to_iso ss d = minutes_on_date to_iso ss d"
  by (induction ss) (auto simp: minutes_of_known_def minutes_on_date_def)

lemma strictly_sorted_sort:
  fixes xs :: "string list"
  shows "distinct xs \<Longrightarrow> sorted_wrt (<) (sort xs)"
  by (simp add: strict_sorted_iff)

text \<open>
  C2, as the code has it. For every session collection whose records all have a date that
  the runtime accepts, \<^verbatim>\<open>prepareDailyTrendData\<close> returns; its labels are strictly ascending
  and are the canonical dates of the records; for each label the Valorant value and the
  Kovaaks value are the total minutes of the sessions of that game on that date, so their
  sum is the total of the Valorant and Kovaaks sessions of that date, which is the total of
  all sessions of that date when no record has another game. The empty collection gives the
  empty chart.
\<close>

theorem daily_trend_by_date_and_game:
  "prepareDailyTrendData to_iso [] = Inr \<lparr>labels = [], valorant_data = [], kovaaks_data = []\<rparr>
   \<and> (list_all (valid_date to_iso) ss \<longrightarrow>
        (\<exists>ch. prepareDailyTrendData to_iso ss = Inr ch
           \<and> sorted_wrt (<) (labels ch)
           \<and> set (labels ch) = canonical_date to_iso ` set ss
           \<and> valorant_data ch
               = map (\<lambda>d. Some (Num (minutes_on to_iso ss d ''valorant''))) (labels ch)
           \<and> kovaaks_data ch
               = map (\<lambda>d. Some (Num (minutes_on to_iso ss d ''kovaaks''))) (labels ch)
           \<and> (\<forall>d. minutes_on to_iso ss d ''valorant'' + minutes_on to_iso ss d ''kovaaks''
                  = minutes_of_known to_iso ss d)
           \<and> (list_all known_game ss \<longrightarrow>
                (\<forall>d. minutes_on to_iso ss d ''valorant'' + minutes_on to_iso ss d ''kovaaks''
                   = minutes_on_date to_iso ss d))))"
proof (intro conjI impI)
  show "prepareDailyTrendData to_iso [] =
          Inr \<lparr>labels = [], valorant_data = [], kovaaks_data = []\<rparr>"
    by (simp add: prepareDailyTrendData_def read_series_def obj_keys_def)
next
  assume v: "list_all (valid_date to_iso) ss"
  have empty: "both_games_held []"
    by (simp add: both_games_held_def)
  from daily_loop_effect [OF v empty]
  obtain dd where dd: "for_each (daily_step to_iso) ss [] = Inr dd" "both_games_held dd"
    "set (obj_keys dd) = canonical_date to_iso ` set ss"
    "distinct (obj_keys dd)"
    "\<forall>d g. g = ''valorant'' \<or> g = ''kovaaks'' \<longrightarrow>
        held_minutes dd d g = held_minutes [] d g + minutes_on to_iso ss d g"
    by (auto simp: obj_keys_Nil)
  have held: "held_minutes dd d g = minutes_on to_iso ss d g"
    if g: "g = ''valorant'' \<or> g = ''kovaaks''" for d g
  proof -
    have "held_minutes [] d g = 0"
      by (simp add: held_minutes_def)
    moreover from dd(5) g
    have "held_minutes dd d g = held_minutes [] d g + minutes_on to_iso ss d g"
      by blast
    ultimately show ?thesis by simp
  qed
  define dates where "dates = sort (obj_keys dd)"
  have sub: "set dates \<subseteq> set (obj_keys dd)"
    by (simp add: dates_def)
  have vs: "read_series ''valorant'' dd dates =
      Inr (map (\<lambda>d. Some (Num (minutes_on to_iso ss d ''valorant''))) dates)"
    using read_series_held [OF dd(2) sub, of "''valorant''"] by (simp add: held)
  have ks: "read_series ''kovaaks'' dd dates =
      Inr (map (\<lambda>d. Some (Num (minutes_on to_iso ss d ''kovaaks''))) dates)"
    using read_series_held [OF dd(2) sub, of "''kovaaks''"] by (simp add: held)
  have result: "prepareDailyTrendData to_iso ss =
      Inr \<lparr>labels = dates,
           valorant_data = map (\<lambda>d. Some (Num (minutes_on to_iso ss d ''valorant''))) dates,
           kovaaks_data = map (\<lambda>d. Some (Num (minutes_on to_iso ss d ''kovaaks''))) dates\<rparr>"
    using dd(1) vs ks by (simp add: prepareDailyTrendData_def Let_def dates_def)
  have asc: "sorted_wrt (<) dates"
    unfolding dates_def by (rule strictly_sorted_sort [OF dd(4)])
  have dom: "set dates = canonical_date to_iso ` set ss"
    by (simp add: dates_def dd(3))
  have split: "minutes_on to_iso ss d ''valorant'' + minutes_on to_iso ss d ''kovaaks''
                  = minutes_of_known to_iso ss d" for d
    by (simp add: known_minutes_split)
  have whole: "minutes_on to_iso ss d ''valorant'' + minutes_on to_iso ss d ''kovaaks''
                   = minutes_on_date to_iso ss d" if "list_all known_game ss" for d
    using that by (simp add: known_minutes_split [symmetric] known_minutes_all)
  show "\<exists>ch. prepareDailyTrendData to_iso ss = Inr ch
           \<and> sorted_wrt (<) (labels ch)
           \<and> set (labels ch) = canonical_date to_iso ` set ss
           \<and> valorant_data ch
               = map (\<lambda>d. Some (Num (minutes_on to_iso ss d ''valorant''))) (labels ch)
           \<and> kovaaks_data ch
               = map (\<lambda>d. Some (Num (minutes_on to_iso ss d ''kovaaks''))) (labels ch)
           \<and> (\<forall>d. minutes_on to_iso ss d ''valorant'' + minutes_on to_iso ss d ''kovaaks''
                  = minutes_of_known to_iso ss d)
           \<and> (list_all known_game ss \<longrightarrow>
                (\<forall>d. minutes_on to_iso ss d ''valorant'' + minutes_on to_iso ss d ''kovaaks''
                   = minutes_on_date to_iso ss d))"
    using result asc dom split whole by simp
qed

theorem daily_trend_by_date_and_game_witness:
  "list_all (valid_date sample_to_iso) [bare_sample, valorant_sample, kovaaks_sample]
   \<and> list_all known_game [bare_sample, valorant_sample, kovaaks_sample]
   \<and> prepareDailyTrendData sample_to_iso [bare_sample, valorant_sample, kovaaks_sample]
       = Inr \<lparr>labels = [''2024-01-01'', ''2024-01-02''],
              valorant_data = [Some (Num 30), Some (Num 0)],
              kovaaks_data = [Some (Num 45), Some (Num 20)]\<rparr>
   \<and> minutes_on_date sample_to_iso [bare_sample, valorant_sample, kovaaks_sample] ''2024-01-01''
       = 75
   \<and> minutes_on_date sample_to_iso [bare_sample, valorant_sample, kovaaks_sample] ''2024-01-02''
       = 20"
proof -
  let ?ss = "[bare_sample, valorant_sample, kovaaks_sample]"
  have v: "list_all (valid_date sample_to_iso) ?ss"
    by code_simp
  have k: "list_all known_game ?ss"
    by code_simp
  have r: "prepareDailyTrendData sample_to_iso ?ss
       = Inr \<lparr>labels = [''2024-01-01'', ''2024-01-02''],
              valorant_data = [Some (Num 30), Some (Num 0)],
              kovaaks_data = [Some (Num 45), Some (Num 20)]\<rparr>"
    by code_simp
  from daily_trend_by_date_and_game [of sample_to_iso ?ss] v k
  obtain ch where ch: "prepareDailyTrendData sample_to_iso ?ss = Inr ch"
    "sorted_wrt (<) (labels ch)"
    "\<forall>d. minutes_on sample_to_iso ?ss d ''valorant'' + minutes_on sample_to_iso ?ss d ''kovaaks''
           = minutes_on_date sample_to_iso ?ss d"
    by blast
  have m: "minutes_on sample_to_iso ?ss ''2024-01-01'' ''valorant'' = 30"
    "minutes_on sample_to_iso ?ss ''2024-01-01'' ''kovaaks'' = 45"
    "minutes_on sample_to_iso ?ss ''2024-01-02'' ''valorant'' = 0"
    "minutes_on sample_to_iso ?ss ''2024-01-02'' ''kovaaks'' = 20"
    by code_simp+
  from ch(3) have
    "minutes_on sample_to_iso ?ss ''2024-01-01'' ''valorant''
       + minutes_on sample_to_iso ?ss ''2024-01-01'' ''kovaaks''
       = minutes_on_date sample_to_iso ?ss ''2024-01-01''"
    "minutes_on sample_to_iso ?ss ''2024-01-02'' ''valorant''
       + minutes_on sample_to_iso ?ss ''2024-01-02'' ''kovaaks''
       = minutes_on_date sample_to_iso ?ss ''2024-01-02''"
    by blast+
  then have "minutes_on_date sample_to_iso ?ss ''2024-01-01'' = 75"
    "minutes_on_date sample_to_iso ?ss ''2024-01-02'' = 20"
    by (simp_all add: m)
  with v k r show ?thesis by (intro conjI)
qed

subsection \<open>Server statistics against the client aggregator\<close>

text \<open>
  Three stored collections on which the statistics of the server are not those of the
  client. For one row of the game \<^verbatim>\<open>osu\<close> the client's \<^verbatim>\<open>gameBreakdown\<close> has a third
  entry, \<^verbatim>\<open>osu: NaN\<close>. For two rows of \<open>2 ^ 62\<close> minutes each the load endpoint answers
  and the client sums them, while the \<^verbatim>\<open>SUM\<close> of the stats endpoint overflows and the
  endpoint fails. For a row whose metadata text was encoded twice the server reads a
  string and tallies nothing, while the client parses the string once more and tallies
  the aim type.
\<close>

theorem server_stats_counterexample:
  "loadFromDatabase sample_parse sample_to_iso [other_game_row]
     = Inr [with_metadata other_game_row (JObject [])]
   \<and> stats_endpoint sample_parse [other_game_row]
     = Inr \<lparr>totalSessions = 1, totalTimeMinutes = 30, avgSessionMinutes = 30,
            gameBreakdown = [(''valorant'', Num 0), (''kovaaks'', Num 0)],
            valorantMatchTypes = [], kovaaksAimTypes = []\<rparr>
   \<and> generateSummaryStats (map as_session [with_metadata other_game_row (JObject [])])
     = Inr \<lparr>totalSessions = 1, totalTimeMinutes = 30, avgSessionMinutes = 30,
            gameBreakdown = [(''valorant'', Num 0), (''kovaaks'', Num 0), (''osu'', NaN)],
            valorantMatchTypes = [], kovaaksAimTypes = []\<rparr>
   \<and> loadFromDatabase sample_parse sample_to_iso [long_row, long_row]
     = Inr [with_metadata long_row (JObject []), with_metadata long_row (JObject [])]
   \<and> stats_endpoint sample_parse [long_row, long_row] = Inl SqliteError
   \<and> generateSummaryStats
        (map as_session [with_metadata long_row (JObject []), with_metadata long_row (JObject [])])
     = Inr \<lparr>totalSessions = 2, totalTimeMinutes = 9223372036854775808,
            avgSessionMinutes = 4611686018427387904,
            gameBreakdown = [(''valorant'', Num 9223372036854775808), (''kovaaks'', Num 0)],
            valorantMatchTypes = [], kovaaksAimTypes = []\<rparr>
   \<and> loadFromDatabase sample_parse sample_to_iso [twice_encoded_row]
     = Inr [with_metadata twice_encoded_row (JObject [(''aimType'', JString ''tracking'')])]
   \<and> stats_endpoint sample_parse [twice_encoded_row]
     = Inr \<lparr>totalSessions = 1, totalTimeMinutes = 45, avgSessionMinutes = 45,
            gameBreakdown = [(''valorant'', Num 0), (''kovaaks'', Num 45)],
            valorantMatchTypes = [], kovaaksAimTypes = []\<rparr>
   \<and> generateSummaryStats
        (map as_session
           [with_metadata twice_encoded_row (JObject [(''aimType'', JString ''tracking'')])])
     = Inr \<lparr>totalSessions = 1, totalTimeMinutes = 45, avgSessionMinutes = 45,
            gameBreakdown = [(''valorant'', Num 0), (''kovaaks'', Num 45)],
            valorantMatchTypes = [], kovaaksAimTypes = [(''tracking'', 45)]\<rparr>"
  by code_simp

lemma sql_sum_safe:
  "\<bar>acc\<bar> + (\<Sum>d\<leftarrow>ds. \<bar>or_zero d\<bar>) < 2 ^ 63 \<Longrightarrow> seen \<or> acc = 0 \<Longrightarrow>
     \<exists>v. sql_sum ds seen acc = Inr v \<and> or_zero v = acc + (\<Sum>d\<leftarrow>ds. or_zero d)"
proof (induction ds arbitrary: seen acc)
  case Nil
  then show ?case by auto
next
  case (Cons d ds)
  show ?case
  proof (cases d)
    case None
    with Cons.prems Cons.IH [of acc seen] show ?thesis by simp
  next
    case (Some n)
    from Cons.prems(1) Some have b: "\<bar>acc\<bar> + \<bar>n\<bar> + (\<Sum>d\<leftarrow>ds. \<bar>or_zero d\<bar>) < 2 ^ 63"
      by simp
    have nn: "0 \<le> (\<Sum>d\<leftarrow>ds. \<bar>or_zero d\<bar>)"
      by (rule sum_list_nonneg) auto
    from b nn have "\<bar>acc + n\<bar> < 2 ^ 63" by linarith
    then have i: "int64 (acc + n)" by (simp add: int64_def abs_less_iff)
    from b have "\<bar>acc + n\<bar> + (\<Sum>d\<leftarrow>ds. \<bar>or_zero d\<bar>) < 2 ^ 63" by linarith
    from Cons.IH [OF this, of True] obtain v
      where "sql_sum ds True (acc + n) = Inr v"
        and "or_zero v = acc + n + (\<Sum>d\<leftarrow>ds. or_zero d)"
      by auto
    with Some i show ?thesis by simp
  qed
qed

lemma abs_sum_filter:
  "(\<Sum>r\<leftarrow>filter P rows. \<bar>f r :: int\<bar>) \<le> (\<Sum>r\<leftarrow>rows. \<bar>f r\<bar>)"
  by (induction rows) auto

lemma sql_sum_duration_safe:
  assumes "safe_minutes rows"
  shows "\<exists>v. sql_sum_duration (filter P rows) = Inr v
           \<and> or_zero v = (\<Sum>r\<leftarrow>filter P rows. or_zero (durationMinutes r))"
proof -
  have "(\<Sum>r\<leftarrow>filter P rows. \<bar>or_zero (durationMinutes r)\<bar>)
          \<le> (\<Sum>r\<leftarrow>rows. \<bar>or_zero (durationMinutes r)\<bar>)"
    by (rule abs_sum_filter)
  also from assms have "\<dots> < 2 ^ 53" by (simp add: safe_minutes_def)
  also have "(2 :: int) ^ 53 < 2 ^ 63" by simp
  finally have "\<bar>0 :: int\<bar>
      + (\<Sum>d\<leftarrow>map durationMinutes (filter P rows). \<bar>or_zero d\<bar>) < 2 ^ 63"
    by (simp add: o_def)
  from sql_sum_safe [OF this, of False] show ?thesis
    by (simp add: sql_sum_duration_def o_def)
qed

lemma plus_nullable_or_zero: "plus_nullable n d = n + or_zero d"
  by (cases d) simp_all

lemma server_aim_types_step_client:
  "server_aim_types_step s kat = aim_types_step s (or_zero (durationMinutes s)) kat"
  by (cases "metadata s")
     (auto simp: server_aim_types_step_def aim_types_step_def add_count_def
        plus_nullable_or_zero split: option.splits)

lemma stats_step_closed:
  "stats_step s acc = Inr (tally_matches s (fst acc), tally_aims s (snd acc))"
  by (simp add: stats_step_def match_types_step_tally server_aim_types_step_client
        aim_types_step_tally)

lemma for_each_stats_closed:
  "for_each stats_step ps acc =
     Inr (fold tally_matches ps (fst acc), fold tally_aims ps (snd acc))"
proof (induction ps arbitrary: acc)
  case Nil
  show ?case by simp
next
  case (Cons p ps)
  have "for_each stats_step (p # ps) acc =
          for_each stats_step ps (tally_matches p (fst acc), tally_aims p (snd acc))"
    using stats_step_closed [of p acc] by simp
  then show ?case by (simp add: Cons.IH)
qed

lemma stats_endpoint_closed:
  assumes "safe_minutes rows"
  shows "stats_endpoint parse rows =
     Inr \<lparr>totalSessions = length rows,
          totalTimeMinutes = (\<Sum>r\<leftarrow>rows. or_zero (durationMinutes r)),
          avgSessionMinutes =
            of_int (\<Sum>r\<leftarrow>rows. or_zero (durationMinutes r)) / of_nat (length rows),
          gameBreakdown =
            [(''valorant'',
              Num (\<Sum>r\<leftarrow>filter (\<lambda>r. game r = ''valorant'') rows. or_zero (durationMinutes r))),
             (''kovaaks'',
              Num (\<Sum>r\<leftarrow>filter (\<lambda>r. game r = ''kovaaks'') rows. or_zero (durationMinutes r)))],
          valorantMatchTypes =
            fold tally_matches
              (map (\<lambda>r. with_metadata r (as_metadata (parse_metadata parse (metadata r)))) rows)
              [],
          kovaaksAimTypes =
            fold tally_aims
              (map (\<lambda>r. with_metadata r (as_metadata (parse_metadata parse (metadata r)))) rows)
              []\<rparr>"
proof -
  from sql_sum_duration_safe [OF assms, of "\<lambda>r. True"] obtain a
    where a: "sql_sum_duration rows = Inr a"
      "or_zero a = (\<Sum>r\<leftarrow>rows. or_zero (durationMinutes r))"
    by auto
  from sql_sum_duration_safe [OF assms, of "\<lambda>r. game r = ''valorant''"] obtain v
    where v: "sql_sum_duration (where_game ''valorant'' rows) = Inr v"
      "or_zero v = (\<Sum>r\<leftarrow>filter (\<lambda>r. game r = ''valorant'') rows. or_zero (durationMinutes r))"
    by (auto simp: where_game_def)
  from sql_sum_duration_safe [OF assms, of "\<lambda>r. game r = ''kovaaks''"] obtain k
    where k: "sql_sum_duration (where_game ''kovaaks'' rows) = Inr k"
      "or_zero k = (\<Sum>r\<leftarrow>filter (\<lambda>r. game r = ''kovaaks'') rows. or_zero (durationMinutes r))"
    by (auto simp: where_game_def)
  have avg: "(if 0 < length rows then of_int n / of_nat (length rows) else 0)
               = (of_int n / of_nat (length rows) :: rat)" for n :: int
    by simp
  show ?thesis
    unfolding stats_endpoint_def Let_def sql_count_def
    by (simp only: a v k for_each_stats_closed sum.case avg fst_conv snd_conv)
qed

lemma reparse_metadata_same: "\<not> holds_text v \<Longrightarrow> reparse_metadata parse v = v"
  by (cases v) (simp_all add: reparse_metadata_def holds_text_def)

lemma client_session_loaded_from:
  assumes "load_row parse to_iso r = Inr s" and "client_session parse to_iso s = Inr s'"
    and "\<not> holds_text (parse_metadata parse (metadata r))"
  shows "loaded_from parse r (as_session s')"
proof -
  from assms(1) have s: "game s = game r" "durationMinutes s = durationMinutes r"
    "startTime s = startTime r" "endTime s = endTime r"
    "metadata s = parse_metadata parse (metadata r)"
    by (auto simp: load_row_def with_metadata_def Let_def split: sum.splits)
  from assms(2) have s': "game s' = game s" "durationMinutes s' = durationMinutes s"
    "startTime s' = startTime s" "endTime s' = endTime s"
    "metadata s' = reparse_metadata parse (metadata s)"
    by (auto simp: client_session_def split: sum.splits)
  from assms(3) s(5) s'(5) have "metadata s' = parse_metadata parse (metadata r)"
    by (simp add: reparse_metadata_same)
  with s s' show ?thesis
    by (simp add: loaded_from_def as_session_def with_metadata_def)
qed

lemma client_sessions_loaded_from:
  "load_rows parse to_iso rows = Inr ls \<Longrightarrow> client_sessions parse to_iso ls = Inr ss \<Longrightarrow>
     list_all (plain_row parse) rows \<Longrightarrow>
     list_all2 (loaded_from parse) rows (map as_session ss)"
proof (induction rows arbitrary: ls ss)
  case Nil
  then show ?case by auto
next
  case (Cons r rows)
  from Cons.prems(1) obtain l ls' where l: "load_row parse to_iso r = Inr l"
    and ls': "load_rows parse to_iso rows = Inr ls'" and ls: "ls = l # ls'"
    by (auto split: sum.splits)
  from Cons.prems(2) ls obtain s ss' where s: "client_session parse to_iso l = Inr s"
    and ss': "client_sessions parse to_iso ls' = Inr ss'" and ss: "ss = s # ss'"
    by (auto split: sum.splits)
  from Cons.prems(3) have "plain_row parse r" and rest: "list_all (plain_row parse) rows"
    by simp_all
  then have r: "\<not> holds_text (parse_metadata parse (metadata r))"
    by (simp add: plain_row_def)
  from client_session_loaded_from [OF l s r] Cons.IH [OF ls' ss' rest] ss
  show ?case by simp
qed

lemma loadFromDatabase_loaded_from:
  assumes "loadFromDatabase parse to_iso rows = Inr ss" and "list_all (plain_row parse) rows"
  shows "list_all2 (loaded_from parse) rows (map as_session ss)"
proof -
  from assms(1) obtain ls where "load_rows parse to_iso rows = Inr ls"
    and "client_sessions parse to_iso ls = Inr ss"
    by (auto simp: loadFromDatabase_def split: sum.splits)
  then show ?thesis by (rule client_sessions_loaded_from) (rule assms(2))
qed

lemma loaded_from_tally:
  assumes "loaded_from parse r s"
  shows "tally_matches s =
           tally_matches (with_metadata r (as_metadata (parse_metadata parse (metadata r))))"
    and "tally_aims s =
           tally_aims (with_metadata r (as_metadata (parse_metadata parse (metadata r))))"
    and "or_zero (durationMinutes s) = or_zero (durationMinutes r)"
    and "game s = game r"
proof -
  let ?p = "with_metadata r (as_metadata (parse_metadata parse (metadata r)))"
  from assms have g: "game s = game ?p" and m: "metadata s = metadata ?p"
    and d: "durationMinutes s = durationMinutes ?p"
    by (simp_all add: loaded_from_def with_metadata_def)
  have "match_types_step s vmt = match_types_step ?p vmt" for vmt
    unfolding match_types_step_def by (simp only: g m)
  then show "tally_matches s = tally_matches ?p"
    by (simp add: fun_eq_iff tally_matches_def)
  have "aim_types_step s (or_zero (durationMinutes s)) kat =
          aim_types_step ?p (or_zero (durationMinutes ?p)) kat" for kat
    unfolding aim_types_step_def by (simp only: g m d)
  then show "tally_aims s = tally_aims ?p"
    by (simp add: fun_eq_iff tally_aims_def)
  from assms show "or_zero (durationMinutes s) = or_zero (durationMinutes r)"
    and "game s = game r"
    by (simp_all add: loaded_from_def)
qed

lemma loaded_from_folds:
  assumes "list_all2 (loaded_from parse) rows ss"
  shows "fold tally_matches ss v =
           fold tally_matches
             (map (\<lambda>r. with_metadata r (as_metadata (parse_metadata parse (metadata r)))) rows)
             v"
    and "fold tally_aims ss k =
           fold tally_aims
             (map (\<lambda>r. with_metadata r (as_metadata (parse_metadata parse (metadata r)))) rows)
             k"
    and "(\<Sum>s\<leftarrow>ss. or_zero (durationMinutes s)) = (\<Sum>r\<leftarrow>rows. or_zero (durationMinutes r))"
    and "(\<Sum>s\<leftarrow>filter (\<lambda>s. game s = g) ss. or_zero (durationMinutes s))
           = (\<Sum>r\<leftarrow>filter (\<lambda>r. game r = g) rows. or_zero (durationMinutes r))"
    and "length ss = length rows"
  using assms
  by (induction rows ss arbitrary: v k rule: list_all2_induct)
     (simp_all add: loaded_from_tally)

lemma fold_tally_game_known_only:
  "list_all known_game ss \<Longrightarrow>
     fold tally_game ss [(''valorant'', Num a), (''kovaaks'', Num b)] =
       [(''valorant'',
         Num (a + (\<Sum>s\<leftarrow>filter (\<lambda>s. game s = ''valorant'') ss. or_zero (durationMinutes s)))),
        (''kovaaks'',
         Num (b + (\<Sum>s\<leftarrow>filter (\<lambda>s. game s = ''kovaaks'') ss. or_zero (durationMinutes s))))]"
proof (induction ss arbitrary: a b)
  case Nil
  show ?case by simp
next
  case (Cons s ss)
  from Cons.prems have k: "known_game s" and ks: "list_all known_game ss"
    by simp_all
  show ?case
  proof (cases "game s = ''valorant''")
    case True
    then have "tally_game s [(''valorant'', Num a), (''kovaaks'', Num b)] =
        [(''valorant'', Num (a + or_zero (durationMinutes s))), (''kovaaks'', Num b)]"
      by (simp add: tally_game_def add_game_def)
    with True show ?thesis by (simp add: Cons.IH [OF ks] add.assoc)
  next
    case False
    with k have g: "game s = ''kovaaks''" by (simp add: known_game_def)
    then have "tally_game s [(''valorant'', Num a), (''kovaaks'', Num b)] =
        [(''valorant'', Num a), (''kovaaks'', Num (b + or_zero (durationMinutes s)))]"
      by (simp add: tally_game_def add_game_def)
    with g show ?thesis by (simp add: Cons.IH [OF ks] add.assoc)
  qed
qed

text \<open>
  C3, as the code has it. Take the stored rows, and the collection that \<^verbatim>\<open>loadFromDatabase\<close>
  hands to the client's summary for them. Let the metadata of every row be plain and not a
  text that was encoded twice, and let the durations be whole minutes whose absolute values
  add up to less than \<open>2 ^ 53\<close>. Then the stats endpoint and \<^verbatim>\<open>generateSummaryStats\<close> both
  return, and they agree on \<^verbatim>\<open>totalSessions\<close>, \<^verbatim>\<open>totalTimeMinutes\<close>, \<^verbatim>\<open>avgSessionMinutes\<close>,
  the \<^verbatim>\<open>valorant\<close> and \<^verbatim>\<open>kovaaks\<close> entries of \<^verbatim>\<open>gameBreakdown\<close> and both metadata
  breakdowns. When every record's game is \<^verbatim>\<open>valorant\<close> or \<^verbatim>\<open>kovaaks\<close> the two results are
  equal. Without these conditions the two can differ, as the three collections above
  show.
\<close>

theorem server_stats_mirror_client:
  "loadFromDatabase parse to_iso rows = Inr ss \<and> list_all (plain_row parse) rows
     \<and> safe_minutes rows \<longrightarrow>
     (\<exists>server client.
        stats_endpoint parse rows = Inr server
        \<and> generateSummaryStats (map as_session ss) = Inr client
        \<and> totalSessions server = totalSessions client
        \<and> totalTimeMinutes server = totalTimeMinutes client
        \<and> avgSessionMinutes server = avgSessionMinutes client
        \<and> obj_get (gameBreakdown server) ''valorant''
            = obj_get (gameBreakdown client) ''valorant''
        \<and> obj_get (gameBreakdown server) ''kovaaks''
            = obj_get (gameBreakdown client) ''kovaaks''
        \<and> valorantMatchTypes server = valorantMatchTypes client
        \<and> kovaaksAimTypes server = kovaaksAimTypes client
        \<and> (list_all known_game (map as_session ss) \<longrightarrow> server = client))"
proof
  assume a: "loadFromDatabase parse to_iso rows = Inr ss \<and> list_all (plain_row parse) rows
     \<and> safe_minutes rows"
  define cs where "cs = map as_session ss"
  from a have rel: "list_all2 (loaded_from parse) rows cs"
    unfolding cs_def using loadFromDatabase_loaded_from [of parse to_iso rows ss] by simp
  from a have safe: "safe_minutes rows" by simp
  note same = loaded_from_folds [OF rel]
  let ?init = "[(''valorant'', Num 0), (''kovaaks'', Num 0)]"
  let ?v = "\<Sum>r\<leftarrow>filter (\<lambda>r. game r = ''valorant'') rows. or_zero (durationMinutes r)"
  let ?k = "\<Sum>r\<leftarrow>filter (\<lambda>r. game r = ''kovaaks'') rows. or_zero (durationMinutes r)"
  have v: "obj_get (fold tally_game cs ?init) ''valorant'' = Some (Num ?v)"
    using fold_tally_game_known [of ?init "''valorant''" 0 cs] by (simp add: same(4))
  have k: "obj_get (fold tally_game cs ?init) ''kovaaks'' = Some (Num ?k)"
    using fold_tally_game_known [of ?init "''kovaaks''" 0 cs] by (simp add: same(4))
  have all: "fold tally_game cs ?init = [(''valorant'', Num ?v), (''kovaaks'', Num ?k)]"
    if "list_all known_game cs"
    using fold_tally_game_known_only [OF that, of 0 0] by (simp add: same(4))
  have "\<exists>server client.
        stats_endpoint parse rows = Inr server
        \<and> generateSummaryStats cs = Inr client
        \<and> totalSessions server = totalSessions client
        \<and> totalTimeMinutes server = totalTimeMinutes client
        \<and> avgSessionMinutes server = avgSessionMinutes client
        \<and> obj_get (gameBreakdown server) ''valorant''
            = obj_get (gameBreakdown client) ''valorant''
        \<and> obj_get (gameBreakdown server) ''kovaaks''
            = obj_get (gameBreakdown client) ''kovaaks''
        \<and> valorantMatchTypes server = valorantMatchTypes client
        \<and> kovaaksAimTypes server = kovaaksAimTypes client
        \<and> (list_all known_game cs \<longrightarrow> server = client)"
    unfolding stats_endpoint_closed [OF safe] generateSummaryStats_closed
    using v k all by (simp add: same)
  then show "\<exists>server client.
        stats_endpoint parse rows = Inr server
        \<and> generateSummaryStats (map as_session ss) = Inr client
        \<and> totalSessions server = totalSessions client
        \<and> totalTimeMinutes server = totalTimeMinutes client
        \<and> avgSessionMinutes server = avgSessionMinutes client
        \<and> obj_get (gameBreakdown server) ''valorant''
            = obj_get (gameBreakdown client) ''valorant''
        \<and> obj_get (gameBreakdown server) ''kovaaks''
            = obj_get (gameBreakdown client) ''kovaaks''
        \<and> valorantMatchTypes server = valorantMatchTypes client
        \<and> kovaaksAimTypes server = kovaaksAimTypes client
        \<and> (list_all known_game (map as_session ss) \<longrightarrow> server = client)"
    unfolding cs_def .
qed

theorem server_stats_mirror_client_witness:
  "loadFromDatabase sample_parse sample_to_iso sample_rows
     = Inr (map (\<lambda>r. with_metadata r (parse_metadata sample_parse (metadata r))) sample_rows)
   \<and> list_all (plain_row sample_parse) sample_rows
   \<and> safe_minutes sample_rows
   \<and> list_all known_game
        (map (\<lambda>r. as_session (with_metadata r (parse_metadata sample_parse (metadata r))))
           sample_rows)
   \<and> stats_endpoint sample_parse sample_rows
     = Inr \<lparr>totalSessions = 4, totalTimeMinutes = 65, avgSessionMinutes = 65 / 4,
            gameBreakdown = [(''valorant'', Num 40), (''kovaaks'', Num 25)],
            valorantMatchTypes = [(''unrated'', 1)], kovaaksAimTypes = [(''tracking'', 25)]\<rparr>
   \<and> generateSummaryStats
        (map (\<lambda>r. as_session (with_metadata r (parse_metadata sample_parse (metadata r))))
           sample_rows)
     = stats_endpoint sample_parse sample_rows"
proof -
  let ?ls = "map (\<lambda>r. with_metadata r (parse_metadata sample_parse (metadata r))) sample_rows"
  let ?ss = "map (\<lambda>r. as_session (with_metadata r (parse_metadata sample_parse (metadata r))))
               sample_rows"
  have l: "loadFromDatabase sample_parse sample_to_iso sample_rows = Inr ?ls"
    by code_simp
  have p: "list_all (plain_row sample_parse) sample_rows"
    by code_simp
  have f: "safe_minutes sample_rows"
    by code_simp
  have k: "list_all known_game ?ss"
    by code_simp
  have s: "stats_endpoint sample_parse sample_rows
     = Inr \<lparr>totalSessions = 4, totalTimeMinutes = 65, avgSessionMinutes = 65 / 4,
            gameBreakdown = [(''valorant'', Num 40), (''kovaaks'', Num 25)],
            valorantMatchTypes = [(''unrated'', 1)], kovaaksAimTypes = [(''tracking'', 25)]\<rparr>"
    by code_simp
  have m: "map as_session ?ls = ?ss"
    by (simp add: o_def)
  from server_stats_mirror_client [of sample_parse sample_to_iso sample_rows ?ls] l p f k
  have "generateSummaryStats ?ss = stats_endpoint sample_parse sample_rows"
    unfolding m by auto
  with l p f k s show ?thesis by (intro conjI)
qed
subsection \<open>Effects that keep a condition on the store\<close>

lemma keeps_ret: "Q x \<Longrightarrow> keeps J (ret x) Q"
  by (simp add: keeps_def ret_def)

lemma keeps_throw: "keeps J (throw e) Q"
  by (simp add: keeps_def throw_def)

lemma keeps_reading: "keeps J (reading f) anything"
  by (simp add: keeps_def reading_def anything_def)

lemma keeps_reading_or_throw: "keeps J (reading_or_throw f) anything"
  by (simp add: keeps_def reading_or_throw_def anything_def split: sum.splits)

lemma keeps_and_then:
  assumes "keeps J m Q" and "\<And>x. Q x \<Longrightarrow> keeps J (f x) R"
  shows "keeps J (and_then m f) R"
  unfolding keeps_def
proof (intro allI impI)
  fix h
  assume j: "J h"
  obtain h' r where m: "m h = (h', r)" by (cases "m h")
  from assms(1) j m have j': "J h'" and q: "case r of Inl e \<Rightarrow> True | Inr x \<Rightarrow> Q x"
    by (auto simp: keeps_def)
  show "J (fst (and_then m f h)) \<and>
        (case snd (and_then m f h) of Inl e \<Rightarrow> True | Inr x \<Rightarrow> R x)"
  proof (cases r)
    case (Inl e)
    with m j' show ?thesis by (simp add: and_then_def)
  next
    case (Inr x)
    with q have "Q x" by simp
    from assms(2) [OF this] j' have "J (fst (f x h'))"
      and "case snd (f x h') of Inl e \<Rightarrow> True | Inr y \<Rightarrow> R y"
      by (auto simp: keeps_def)
    with m Inr show ?thesis by (simp add: and_then_def)
  qed
qed

lemma keeps_weaken:
  assumes "keeps J m Q" and "\<And>x. Q x \<Longrightarrow> R x"
  shows "keeps J m R"
  using assms by (fastforce simp: keeps_def split: sum.splits)

lemma keeps_anything: "keeps J m Q \<Longrightarrow> keeps J m anything"
  by (rule keeps_weaken) (simp_all add: anything_def)

lemma keeps_get_prop: "keeps J (get_prop v k) anything"
  by (cases v) (simp_all add: keeps_throw keeps_reading keeps_ret anything_def)

lemma keeps_over_list:
  assumes "\<And>x. keeps J (f x) anything"
  shows "keeps J (over_list f xs) anything"
proof (induction xs)
  case Nil
  show ?case by (simp add: keeps_ret anything_def)
next
  case (Cons x xs)
  show ?case
    by (simp, rule keeps_and_then [OF assms]) (rule Cons.IH)
qed

lemma keeps_collect:
  assumes "\<And>x. keeps J (f x) anything"
  shows "keeps J (collect f xs) anything"
proof (induction xs)
  case Nil
  show ?case by (simp add: keeps_ret anything_def)
next
  case (Cons x xs)
  show ?case
    by (simp, intro keeps_and_then [OF assms] keeps_and_then [OF Cons.IH] keeps_ret)
       (simp add: anything_def)
qed

lemma keeps_element_step:
  assumes "\<And>v acc. keeps J (f v acc) anything"
  shows "keeps J
     (\<lambda>h. case elements h arr of
            None \<Rightarrow> (h, Inr acc)
          | Some vs \<Rightarrow> (if i < length vs then f (vs ! i) acc h else (h, Inr acc))) anything"
  unfolding keeps_def
proof (intro allI impI)
  fix h
  assume j: "J h"
  show "J (fst (case elements h arr of
                 None \<Rightarrow> (h, Inr acc)
               | Some vs \<Rightarrow> (if i < length vs then f (vs ! i) acc h else (h, Inr acc))))
        \<and> (case snd (case elements h arr of
                 None \<Rightarrow> (h, Inr acc)
               | Some vs \<Rightarrow> (if i < length vs then f (vs ! i) acc h else (h, Inr acc))) of
             Inl e \<Rightarrow> True | Inr x \<Rightarrow> anything x)"
  proof (cases "elements h arr")
    case None
    with j show ?thesis by (simp add: anything_def)
  next
    case (Some vs)
    show ?thesis
    proof (cases "i < length vs")
      case True
      from assms [of "vs ! i" acc] j have "J (fst (f (vs ! i) acc h))"
        by (simp add: keeps_def)
      with Some True show ?thesis
        by (simp add: anything_def split: sum.splits)
    next
      case False
      with Some j show ?thesis by (simp add: anything_def)
    qed
  qed
qed

lemma keeps_over_indices:
  assumes "\<And>v acc. keeps J (f v acc) anything"
  shows "keeps J (over_indices f arr ixs acc) anything"
proof (induction ixs arbitrary: acc)
  case Nil
  show ?case by (simp add: keeps_ret anything_def)
next
  case (Cons i ixs)
  show ?case
    by (simp, rule keeps_and_then [OF keeps_element_step [OF assms]]) (rule Cons.IH)
qed

lemma keeps_forEach:
  assumes "\<And>v acc. keeps J (f v acc) anything"
  shows "keeps J (forEach arr f acc) anything"
  unfolding keeps_def
proof (intro allI impI)
  fix h
  assume j: "J h"
  show "J (fst (forEach arr f acc h)) \<and>
        (case snd (forEach arr f acc h) of Inl e \<Rightarrow> True | Inr x \<Rightarrow> anything x)"
  proof (cases "elements h arr")
    case None
    with j show ?thesis by (simp add: forEach_def)
  next
    case (Some vs)
    from keeps_over_indices [OF assms, where arr = arr and ixs = "[0..<length vs]" and acc = acc] j
    have "J (fst (over_indices f arr [0..<length vs] acc h))"
      by (simp add: keeps_def)
    with Some show ?thesis
      by (simp add: forEach_def anything_def split: sum.splits)
  qed
qed

subsection \<open>Writes that land after the given cells\<close>

lemma framed_refl: "framed h h"
  by (simp add: framed_def)

lemma framed_alloc: "framed h0 h \<Longrightarrow> framed h0 (h @ [c])"
  by (simp add: framed_def)

lemma framed_update: "framed h0 h \<Longrightarrow> length h0 \<le> a \<Longrightarrow> framed h0 (h[a := c])"
  by (simp add: framed_def)

lemma keeps_framed_alloc: "keeps (framed h0) (alloc c) (\<lambda>a. length h0 \<le> a)"
  by (simp add: keeps_def alloc_def framed_alloc) (simp add: framed_def)

lemma keeps_framed_set_prop:
  assumes "\<And>a. target = VRef a \<Longrightarrow> length h0 \<le> a"
  shows "keeps (framed h0) (set_prop target k x) anything"
proof (cases target)
  case (VRef a)
  with assms have "length h0 \<le> a" by simp
  with VRef show ?thesis
    by (auto simp: keeps_def anything_def framed_update split: option.splits cell.splits)
qed (simp_all add: keeps_throw)

lemma keeps_framed_add_to_tally:
  assumes "length h0 \<le> tally"
  shows "keeps (framed h0) (add_to_tally rt tally key x) anything"
  unfolding add_to_tally_def
  by (intro keeps_and_then [OF keeps_get_prop] keeps_and_then [OF keeps_reading_or_throw]
        keeps_framed_set_prop)
     (use assms in auto)

lemma keeps_framed_summary_callback:
  assumes "length h0 \<le> gb" and "length h0 \<le> vmt" and "length h0 \<le> kat"
  shows "keeps (framed h0) (summary_callback rt gb vmt kat session minutes) anything"
proof -
  have entries: "keeps (framed h0)
      (over_list (\<lambda>(type, count). add_to_tally rt vmt type count) es) anything" for es
    by (rule keeps_over_list) (simp add: split_def keeps_framed_add_to_tally [OF assms(2)])
  have matches: "keeps (framed h0)
      (if g1 = VString ''valorant'' then
          and_then (get_prop session ''metadata'') (\<lambda>md.
          if truthy md then
            and_then (get_prop md ''matchTypes'') (\<lambda>mt.
            if truthy mt then
              and_then (reading (\<lambda>h. js_entries rt h mt)) (\<lambda>entries.
              over_list (\<lambda>(type, count). add_to_tally rt vmt type count) entries)
            else ret ())
          else ret ())
        else ret ()) anything" for g1
    by (auto intro!: keeps_and_then [OF keeps_get_prop] keeps_and_then [OF keeps_reading]
          entries keeps_ret simp: anything_def)
  have aims: "keeps (framed h0)
      (if g2 = VString ''kovaaks'' then
          and_then (get_prop session ''metadata'') (\<lambda>md.
          if truthy md then
            and_then (get_prop md ''aimType'') (\<lambda>aim.
            if truthy aim then
              and_then (reading_or_throw (\<lambda>h. js_key rt h aim)) (\<lambda>key.
              add_to_tally rt kat key (or_number_zero dm))
            else ret ())
          else ret ())
        else ret ()) anything" for g2 dm
    by (auto intro!: keeps_and_then [OF keeps_get_prop]
          keeps_and_then [OF keeps_reading_or_throw]
          keeps_framed_add_to_tally [OF assms(3)] keeps_ret simp: anything_def)
  show ?thesis
    unfolding summary_callback_def
    by (intro keeps_and_then [OF keeps_get_prop] keeps_and_then [OF keeps_reading_or_throw]
          keeps_and_then [OF keeps_framed_set_prop] keeps_and_then [OF matches]
          keeps_and_then [OF aims] keeps_ret)
       (use assms in \<open>auto simp: anything_def\<close>)
qed

lemma keeps_framed_generateSummaryStats:
  "keeps (framed h0) (generateSummaryStats_store rt arr) anything"
proof -
  have test: "keeps (framed h0)
      (if truthy arr
        then and_then (get_prop arr ''length'') (\<lambda>n. ret (n = VNumber 0))
        else ret True) anything"
    by (auto intro!: keeps_and_then [OF keeps_get_prop] keeps_ret simp: anything_def)
  have rest: "keeps (framed h0)
      (if no_sessions then
         and_then (alloc (stats_object (VNumber 0) (VNumber 0) (VNumber 0) gb vmt kat)) (\<lambda>r.
         ret (VRef r))
       else
         and_then (forEach arr (summary_callback rt gb vmt kat) (VNumber 0)) (\<lambda>minutes.
         and_then (get_prop arr ''length'') (\<lambda>n.
         and_then (reading (\<lambda>h. js_divide rt h minutes n)) (\<lambda>avg.
         and_then (alloc (stats_object n minutes avg gb vmt kat)) (\<lambda>r.
         ret (VRef r)))))) anything"
    if "length h0 \<le> gb" and "length h0 \<le> vmt" and "length h0 \<le> kat"
    for no_sessions gb vmt kat
  proof (cases no_sessions)
    case True
    then show ?thesis
      by (auto intro!: keeps_and_then [OF keeps_framed_alloc] keeps_ret simp: anything_def)
  next
    case False
    have loop: "keeps (framed h0)
        (forEach arr (summary_callback rt gb vmt kat) (VNumber 0)) anything"
      by (rule keeps_forEach) (rule keeps_framed_summary_callback [OF that])
    from False show ?thesis
      by (auto intro!: keeps_and_then [OF loop] keeps_and_then [OF keeps_get_prop]
            keeps_and_then [OF keeps_reading] keeps_and_then [OF keeps_framed_alloc]
            keeps_ret simp: anything_def)
  qed
  show ?thesis
    unfolding generateSummaryStats_store_def
    by (intro keeps_and_then [OF test] keeps_and_then [OF keeps_framed_alloc] rest)
qed

subsection \<open>The daily buckets are the function's own\<close>

lemma cell_at_append: "cell_at (h @ [c]) a = (if a = length h then Some c else cell_at h a)"
  by (auto simp: cell_at_def nth_append)

lemma cell_at_update:
  "cell_at (h[a := c]) b = (if b = a \<and> a < length h then Some c else cell_at h b)"
  by (auto simp: cell_at_def)

lemma fresh_days_alloc:
  assumes "fresh_days h0 dd h"
  shows "fresh_days h0 dd (h @ [c])" and "dd < length h"
proof -
  from assms have c: "cell_at h dd \<noteq> None"
    by (auto simp: fresh_days_def split: option.splits)
  then show lt: "dd < length h"
    by (simp add: cell_at_def split: if_splits)
  from assms lt show "fresh_days h0 dd (h @ [c])"
    by (simp add: fresh_days_def framed_alloc cell_at_append)
qed

lemma keeps_fresh_days_alloc: "keeps (fresh_days h0 dd) (alloc c) (\<lambda>a. dd < a)"
  by (simp add: keeps_def alloc_def fresh_days_alloc)

lemma fresh_days_property:
  assumes "fresh_days h0 dd h"
  shows "cell_prop (the (cell_at h dd)) k = VUndefined
         \<or> refers_above dd (cell_prop (the (cell_at h dd)) k)"
proof -
  from assms obtain ps where ps: "cell_at h dd = Some (Object ps)"
    and all: "list_all (\<lambda>p. refers_above dd (snd p)) ps"
    by (auto simp: fresh_days_def split: option.splits cell.splits)
  show ?thesis
  proof (cases "obj_get ps k")
    case None
    with ps show ?thesis by simp
  next
    case (Some v)
    from obj_get_in_set [OF Some] all have "refers_above dd v"
      by (auto simp: list_all_iff)
    with ps Some show ?thesis by simp
  qed
qed

lemma keeps_fresh_days_get:
  "keeps (fresh_days h0 dd) (get_prop (VRef dd) k)
     (\<lambda>v. v = VUndefined \<or> refers_above dd v)"
  unfolding keeps_def
proof (intro allI impI)
  fix h
  assume f: "fresh_days h0 dd h"
  then have "cell_at h dd \<noteq> None"
    by (auto simp: fresh_days_def split: option.splits)
  with f fresh_days_property [OF f, of k]
  show "fresh_days h0 dd (fst (get_prop (VRef dd) k h)) \<and>
        (case snd (get_prop (VRef dd) k h) of
           Inl e \<Rightarrow> True | Inr v \<Rightarrow> v = VUndefined \<or> refers_above dd v)"
    by (auto simp: reading_def)
qed

lemma fresh_days_write_above:
  assumes "fresh_days h0 dd h" and "dd < a"
  shows "fresh_days h0 dd (h[a := c])"
  using assms by (simp add: fresh_days_def framed_update cell_at_update)

lemma keeps_fresh_days_set_above:
  assumes "target = VUndefined \<or> refers_above dd target"
  shows "keeps (fresh_days h0 dd) (set_prop target k x) anything"
proof (cases target)
  case (VRef a)
  with assms have "dd < a" by (simp add: refers_above_def)
  with VRef show ?thesis
    by (auto simp: keeps_def anything_def fresh_days_write_above
          split: option.splits cell.splits)
qed (simp_all add: keeps_throw)

lemma list_all_obj_set:
  "list_all P ps \<Longrightarrow> P (k, x) \<Longrightarrow> list_all P (obj_set ps k x)"
  by (induction ps) auto

lemma keeps_fresh_days_set_day:
  assumes "dd < e"
  shows "keeps (fresh_days h0 dd) (set_prop (VRef dd) k (VRef e)) anything"
  unfolding keeps_def
proof (intro allI impI)
  fix h
  assume f: "fresh_days h0 dd h"
  then obtain ps where ps: "cell_at h dd = Some (Object ps)"
    and all: "list_all (\<lambda>p. refers_above dd (snd p)) ps"
    and fr: "framed h0 h" and above: "length h0 \<le> dd"
    by (auto simp: fresh_days_def split: option.splits cell.splits)
  from ps have lt: "dd < length h"
    by (simp add: cell_at_def split: if_splits)
  have "list_all (\<lambda>p. refers_above dd (snd p)) (obj_set ps k (VRef e))"
    by (rule list_all_obj_set [OF all]) (simp add: refers_above_def assms)
  then have "fresh_days h0 dd (h[dd := Object (obj_set ps k (VRef e))])"
    using fr above lt by (simp add: fresh_days_def framed_update cell_at_update)
  with ps show "fresh_days h0 dd (fst (set_prop (VRef dd) k (VRef e) h)) \<and>
        (case snd (set_prop (VRef dd) k (VRef e) h) of
           Inl e \<Rightarrow> True | Inr x \<Rightarrow> anything x)"
    by (simp add: anything_def)
qed

lemma keeps_fresh_days_callback:
  "keeps (fresh_days h0 dd) (daily_callback rt dd session u0) anything"
proof -
  have create: "keeps (fresh_days h0 dd)
      (if \<not> truthy present then
          and_then (alloc (Object [(''valorant'', VNumber 0), (''kovaaks'', VNumber 0)])) (\<lambda>e.
          set_prop (VRef dd) day (VRef e))
        else ret ()) anything" for present day
  proof (cases "truthy present")
    case True
    then show ?thesis by (simp add: keeps_ret anything_def)
  next
    case False
    have "keeps (fresh_days h0 dd)
        (and_then (alloc (Object [(''valorant'', VNumber 0), (''kovaaks'', VNumber 0)])) (\<lambda>e.
          set_prop (VRef dd) day (VRef e))) anything"
      by (intro keeps_and_then [OF keeps_fresh_days_alloc] keeps_fresh_days_set_day)
    with False show ?thesis by (simp only: if_True simp_thms)
  qed
  have add: "keeps (fresh_days h0 dd)
      (and_then (get_prop session ''game'') (\<lambda>g.
       and_then (reading_or_throw (\<lambda>h. js_key rt h g)) (\<lambda>key.
       and_then (get_prop entry key) (\<lambda>old.
       and_then (reading_or_throw (\<lambda>h. js_plus rt h old (or_number_zero dm))) (\<lambda>new.
       set_prop entry key new))))) anything"
    if "entry = VUndefined \<or> refers_above dd entry" for entry dm
    by (intro keeps_and_then [OF keeps_get_prop] keeps_and_then [OF keeps_reading_or_throw]
          keeps_fresh_days_set_above that)
  show ?thesis
    unfolding daily_callback_def
    by (intro keeps_and_then [OF keeps_fresh_days_get] keeps_and_then [OF keeps_get_prop]
          keeps_and_then [OF keeps_reading_or_throw] keeps_and_then [OF create] add)
qed

lemma keeps_series: "keeps J (series dd key dates) anything"
  unfolding series_def
  by (intro keeps_collect keeps_and_then [OF keeps_get_prop] keeps_get_prop)

lemma fresh_days_framed: "fresh_days h0 dd h \<Longrightarrow> framed h0 h"
  by (simp add: fresh_days_def)

lemma fresh_days_start: "fresh_days h (length h) (h @ [Object []])"
  by (simp add: fresh_days_def framed_def cell_at_append)

lemma framed_prepareDailyTrendData:
  "framed h (fst (prepareDailyTrendData_store rt arr h))"
proof -
  define dd where "dd = length h"
  define rest where
    "rest =
     and_then (forEach arr (daily_callback rt dd) ()) (\<lambda>u.
     and_then (reading (\<lambda>h. sort (js_keys rt h (VRef dd)))) (\<lambda>sortedDates.
     and_then (alloc (Array (map VString sortedDates))) (\<lambda>labels.
     and_then (series dd ''valorant'' sortedDates) (\<lambda>vs.
     and_then (alloc (Array vs)) (\<lambda>vdata.
     and_then (alloc (dataset_object ''Valorant'' vdata
                        ''rgba(255, 99, 132, 0.5)'' ''rgb(255, 99, 132)'')) (\<lambda>vset.
     and_then (series dd ''kovaaks'' sortedDates) (\<lambda>ks.
     and_then (alloc (Array ks)) (\<lambda>kdata.
     and_then (alloc (dataset_object ''Kovaaks Aim Trainer'' kdata
                        ''rgba(54, 162, 235, 0.5)'' ''rgb(54, 162, 235)'')) (\<lambda>kset.
     and_then (alloc (Array [VRef vset, VRef kset])) (\<lambda>datasets.
     and_then (alloc (Object [(''labels'', VRef labels), (''datasets'', VRef datasets)]))
       (\<lambda>chartData. ret (VRef chartData))))))))))))"
  have run: "prepareDailyTrendData_store rt arr h = rest (h @ [Object []])"
    by (simp add: prepareDailyTrendData_store_def and_then_def [of "alloc (Object [])"]
          alloc_def rest_def dd_def)
  have loop: "keeps (fresh_days h dd) (forEach arr (daily_callback rt dd) ()) anything"
    by (rule keeps_forEach) (rule keeps_fresh_days_callback)
  have "keeps (fresh_days h dd) rest anything"
    unfolding rest_def
    by (intro keeps_and_then [OF loop] keeps_and_then [OF keeps_reading]
          keeps_and_then [OF keeps_anything [OF keeps_fresh_days_alloc]]
          keeps_and_then [OF keeps_series] keeps_ret)
       (simp add: anything_def)
  moreover have "fresh_days h dd (h @ [Object []])"
    unfolding dd_def by (rule fresh_days_start)
  ultimately have "fresh_days h dd (fst (rest (h @ [Object []])))"
    by (simp add: keeps_def)
  then show ?thesis
    by (simp add: run fresh_days_framed)
qed

text \<open>
  C10. Whatever the store and the argument, a call of \<^verbatim>\<open>generateSummaryStats\<close> or of
  \<^verbatim>\<open>prepareDailyTrendData\<close> leaves every cell that existed before the call as it was,
  whether the call returns or throws: the store afterwards begins with the store before.
  The session array, every record in it and every object those refer to are among these
  cells; the calls write only to the objects they create.
\<close>

theorem aggregators_leave_input_unchanged:
  "length h \<le> length (fst (generateSummaryStats_store rt arr h))
   \<and> take (length h) (fst (generateSummaryStats_store rt arr h)) = h
   \<and> length h \<le> length (fst (prepareDailyTrendData_store rt arr h))
   \<and> take (length h) (fst (prepareDailyTrendData_store rt arr h)) = h"
proof -
  have "framed h (fst (generateSummaryStats_store rt arr h))"
    using keeps_framed_generateSummaryStats [of h rt arr] framed_refl [of h]
    by (simp add: keeps_def)
  moreover have "framed h (fst (prepareDailyTrendData_store rt arr h))"
    by (rule framed_prepareDailyTrendData)
  ultimately show ?thesis
    by (simp add: framed_def)
qed

theorem aggregators_leave_input_unchanged_witness:
  "take 6 (fst (generateSummaryStats_store sample_runtime (VRef 5) sample_store)) = sample_store
   \<and> snd (generateSummaryStats_store sample_runtime (VRef 5) sample_store) = Inr (VRef 9)
   \<and> cell_at (fst (generateSummaryStats_store sample_runtime (VRef 5) sample_store)) 9
       = Some (stats_object (VNumber 2) (VNumber 75) (VNumber (75 / 2)) 6 7 8)
   \<and> take 6 (fst (prepareDailyTrendData_store sample_runtime (VRef 5) sample_store))
       = sample_store
   \<and> snd (prepareDailyTrendData_store sample_runtime (VRef 5) sample_store) = Inr (VRef 14)
   \<and> cell_at (fst (prepareDailyTrendData_store sample_runtime (VRef 5) sample_store)) 8
       = Some (Array [VString ''2024-01-01''])
   \<and> cell_at (fst (prepareDailyTrendData_store sample_runtime (VRef 5) sample_store)) 9
       = Some (Array [VNumber 30])
   \<and> cell_at (fst (prepareDailyTrendData_store sample_runtime (VRef 5) sample_store)) 11
       = Some (Array [VNumber 45])"
proof -
  have len: "length sample_store = 6"
    by (simp add: sample_store_def)
  from aggregators_leave_input_unchanged [of sample_store sample_runtime "VRef 5"]
  have "take 6 (fst (generateSummaryStats_store sample_runtime (VRef 5) sample_store))
          = sample_store"
    and "take 6 (fst (prepareDailyTrendData_store sample_runtime (VRef 5) sample_store))
          = sample_store"
    by (simp_all only: len)
  moreover
  have "snd (generateSummaryStats_store sample_runtime (VRef 5) sample_store) = Inr (VRef 9)"
    by code_simp
  moreover
  have "cell_at (fst (generateSummaryStats_store sample_runtime (VRef 5) sample_store)) 9
       = Some (stats_object (VNumber 2) (VNumber 75) (VNumber (75 / 2)) 6 7 8)"
    by code_simp
  moreover
  have "snd (prepareDailyTrendData_store sample_runtime (VRef 5) sample_store) = Inr (VRef 14)"
    by code_simp
  moreover
  have "cell_at (fst (prepareDailyTrendData_store sample_runtime (VRef 5) sample_store)) 8
       = Some (Array [VString ''2024-01-01''])"
    by code_simp
  moreover
  have "cell_at (fst (prepareDailyTrendData_store sample_runtime (VRef 5) sample_store)) 9
       = Some (Array [VNumber 30])"
    by code_simp
  moreover
  have "cell_at (fst (prepareDailyTrendData_store sample_runtime (VRef 5) sample_store)) 11
       = Some (Array [VNumber 45])"
    by code_simp
  ultimately show ?thesis by (intro conjI)
qed

subsection \<open>A page without the metadata container\<close>

text \<open>
  When the page has no metadata container, a click on End while the timer runs never
  returns: \<^verbatim>\<open>showMetadataForm\<close> and \<^verbatim>\<open>endTimer\<close> call each other until the stack is
  full, whatever its size. The results on the duration above are stated for a page that
  has the container.
\<close>

lemma end_without_container:
  "isRunning s \<Longrightarrow> currentSession s \<noteq> None \<Longrightarrow> metadataContainer s = None \<Longrightarrow>
     showMetadataForm frames c s = Inl RangeError \<and> endTimer frames c s = Inl RangeError"
proof (induction frames arbitrary: s)
  case 0
  show ?case by simp
next
  case (Suc frames)
  from Suc.prems obtain cs where cs: "currentSession s = Some cs" by auto
  define s1 where
    "s1 = s\<lparr>timerInterval := False,
            currentSession :=
              Some (cs\<lparr>endTime := Some (iso c),
                       durationMinutes := Some (math_round (of_int (elapsedTime s) / 60000))\<rparr>)\<rparr>"
  have s1: "isRunning s1" "currentSession s1 \<noteq> None" "metadataContainer s1 = None"
    using Suc.prems by (simp_all add: s1_def)
  from Suc.IH [OF s1] have rest: "endTimer frames c s1 = Inl RangeError"
    by simp
  have "showMetadataForm (Suc frames) c s = endTimer frames c s1"
    using Suc.prems cs by (simp add: s1_def Let_def)
  with rest Suc.IH [OF Suc.prems] show ?case by simp
qed

end
